theory Spec2Isabelle
  imports Main "HOL-Library.Word" "HOL-Library.Signed_Division"
begin

unbundle bit_operations_syntax

section \<open>The shutter node of the Elektor bus: data model\<close>

text \<open>
  The model follows \<^verbatim>\<open>shutter.c\<close> (the shutter controller) and \<^verbatim>\<open>hardware.c\<close>
  (clock, keys, ticker interrupt).  The controller is an AVR: \<^verbatim>\<open>byte\<close> and
  \<^verbatim>\<open>uint8_t\<close> are 8-bit words, \<^verbatim>\<open>uint16_t\<close> and \<^verbatim>\<open>unsigned int\<close> are 16-bit
  words; all arithmetic wraps.  The file-level and function-level \<^verbatim>\<open>static\<close>
  variables of both files are the fields of one record, passed through every function.
\<close>

type_synonym byte = "8 word"
type_synonym uint16 = "16 word"

text \<open>\<^verbatim>\<open>enum action_values\<close> and \<^verbatim>\<open>enum motor_state_values\<close>.\<close>

datatype action_values =
  action_none | action_up | action_down | action_up_key | action_down_key

datatype motor_state_values =
  motor_state_off
  | motor_state_pre_off | motor_state_pre_off2 | motor_state_pre_off3
  | motor_state_pre_up | motor_state_pre_up2 | motor_state_up | motor_state_up_ready
  | motor_state_pre_down | motor_state_pre_down2 | motor_state_down | motor_state_down_ready

text \<open>The RAM copy of the node configuration (\<^verbatim>\<open>config\<close>) and \<^verbatim>\<open>sensor_ctrl\<close>.\<close>

record config_s =
  nodeid_hi :: byte
  nodeid_lo :: byte
  debug_flags :: byte
  reset_flags :: byte

record sensor_ctrl_s =
  active :: byte
  addr_hi :: byte
  addr_lo :: byte

text \<open>
  The node.  \<open>key_s2_state\<close> and \<open>key_s3_state\<close> are the \<^verbatim>\<open>static uint16_t state\<close> of
  \<^verbatim>\<open>read_key_s2\<close> and \<^verbatim>\<open>read_key_s3\<close>, \<open>two_ms_counter\<close> the static counter of the
  ticker interrupt, \<open>last_action\<close> the static of \<^verbatim>\<open>trigger_action\<close>.  \<open>MOTOR_on\<close> and
  \<open>MOTOR_down\<close> are the two relay outputs (bits PC2 and PC3 of PORTC), \<open>LED_Collision\<close>
  the LED output.  \<open>schedule\<close> is the EEPROM table \<^verbatim>\<open>ee_data.u.shutterctl.schedule\<close> (its
  length is \<^verbatim>\<open>DIM (schedule)\<close>) and \<open>ee_nodetype\<close> the EEPROM byte \<^verbatim>\<open>ee_data.nodetype\<close>.
  \<open>sent\<close> lists the frames handed to \<^verbatim>\<open>csma_send_message\<close>, oldest first.
\<close>

record node =
  current_time :: uint16
  current_clock :: uint16
  time_has_been_set :: bool
  two_ms_counter :: byte
  key_s2_state :: uint16
  key_s3_state :: uint16
  one_second_event :: bool
  key_s2_event :: bool
  key_s3_event :: bool
  wakeup_main :: bool
  motor_action_delay :: uint16
  motor_action_event :: bool
  sensor_action_delay :: uint16
  sensor_action_event :: bool
  schedule_last_tfound :: uint16
  motor_state :: motor_state_values
  shutter_state :: byte
  last_action :: action_values
  MOTOR_on :: bool
  MOTOR_down :: bool
  LED_Collision :: bool
  config :: config_s
  sensor_ctrl :: sensor_ctrl_s
  schedule :: "uint16 list"
  ee_nodetype :: byte
  sent :: "byte list list"

text \<open>
  The node after reset, when \<^verbatim>\<open>main\<close> enters its loop: statics are zero, \<^verbatim>\<open>main\<close> has
  switched both relay outputs off.  The configuration and the EEPROM contents are
  whatever the EEPROM holds; here node id 0:17 and a schedule of sixteen entries as
  \<^verbatim>\<open>init_eeprom\<close> writes it: pull-up at 07:30 and pull-down at 18:15 from Monday to
  Saturday, pull-up at 08:30 and pull-down at 18:15 on Sunday, two unused entries.
\<close>

definition node_reset :: node where
  "node_reset =
     \<lparr> current_time = 0, current_clock = 0, time_has_been_set = False,
       two_ms_counter = 0, key_s2_state = 0, key_s3_state = 0,
       one_second_event = False, key_s2_event = False, key_s3_event = False,
       wakeup_main = False, motor_action_delay = 0, motor_action_event = False,
       sensor_action_delay = 0, sensor_action_event = False,
       schedule_last_tfound = 0, motor_state = motor_state_off, shutter_state = 0,
       last_action = action_none, MOTOR_on = False, MOTOR_down = False,
       LED_Collision = False,
       config = \<lparr> nodeid_hi = 0, nodeid_lo = 17, debug_flags = 0, reset_flags = 0 \<rparr>,
       sensor_ctrl = \<lparr> active = 0, addr_hi = 0, addr_lo = 0 \<rparr>,
       schedule = [2701, 6575, 11341, 15215, 19981, 23855, 28621, 32495,
                   37261, 41135, 45901, 49775, 54901, 58415, 0, 0],
       ee_nodetype = 0, sent = [] \<rparr>"

section \<open>hardware.c: keys, clock and the ticker interrupt\<close>

text \<open>
  \<^verbatim>\<open>read_key_s2\<close> and \<^verbatim>\<open>read_key_s3\<close>.  The argument is the value of the input macro
  \<^verbatim>\<open>KEY_S2\<close> (\<^verbatim>\<open>KEY_S3\<close>) at this call, as a truth value; the code shifts in its negation.
  The result pairs the returned flag with the node holding the new shift register.
\<close>

definition read_key_s2 :: "bool \<Rightarrow> node \<Rightarrow> bool \<times> node" where
  "read_key_s2 key_s2 s =
     (let state = push_bit 1 (key_s2_state s);
          state = state OR (if \<not> key_s2 then 1 else 0);
          state = state OR 0xf800
      in (state = 0xfc00, s\<lparr>key_s2_state := state\<rparr>))"

definition read_key_s3 :: "bool \<Rightarrow> node \<Rightarrow> bool \<times> node" where
  "read_key_s3 key_s3 s =
     (let state = push_bit 1 (key_s3_state s);
          state = state OR (if \<not> key_s3 then 1 else 0);
          state = state OR 0xf800
      in (state = 0xfc00, s\<lparr>key_s3_state := state\<rparr>))"

definition get_current_time :: "node \<Rightarrow> uint16" where
  "get_current_time s = current_time s"

text \<open>\<^verbatim>\<open>get_current_fulltime\<close> returns the time and stores \<^verbatim>\<open>lo/10\<close> in a byte.\<close>

definition get_current_fulltime :: "node \<Rightarrow> uint16 \<times> byte" where
  "get_current_fulltime s = (current_time s, ucast (current_clock s div 10))"

text \<open>\<^verbatim>\<open>set_current_fulltime\<close>: \<^verbatim>\<open>deci * 10\<close> is computed in \<^verbatim>\<open>int\<close> and fits 16 bits.\<close>

definition set_current_fulltime :: "uint16 \<Rightarrow> byte \<Rightarrow> node \<Rightarrow> node" where
  "set_current_fulltime tim deci s =
     s\<lparr>current_time := tim, current_clock := ucast deci * 10, time_has_been_set := True\<rparr>"

definition set_debug_flags :: "byte \<Rightarrow> node \<Rightarrow> node" where
  "set_debug_flags v s = s\<lparr>config := (config s)\<lparr>debug_flags := v\<rparr>\<rparr>"

text \<open>
  \<^verbatim>\<open>ticker_bottom\<close> of shutter.c, called by the interrupt every 10 ms with the current
  clock value.  Its five \<^verbatim>\<open>if\<close> statements, in order.  A key reader is only called
  while its event flag is clear (\<^verbatim>\<open>&&\<close> short-circuits).
\<close>

definition tick_one_second :: "uint16 \<Rightarrow> node \<Rightarrow> node" where
  "tick_one_second clock s =
     (if clock mod 100 = 0 then s\<lparr>one_second_event := True, wakeup_main := True\<rparr> else s)"

definition tick_key_s2 :: "bool \<Rightarrow> node \<Rightarrow> node" where
  "tick_key_s2 key_s2 s =
     (if \<not> key_s2_event s
      then (let (r, s) = read_key_s2 key_s2 s
            in if r then s\<lparr>key_s2_event := True, wakeup_main := True\<rparr> else s)
      else s)"

definition tick_key_s3 :: "bool \<Rightarrow> node \<Rightarrow> node" where
  "tick_key_s3 key_s3 s =
     (if \<not> key_s3_event s
      then (let (r, s) = read_key_s3 key_s3 s
            in if r then s\<lparr>key_s3_event := True, wakeup_main := True\<rparr> else s)
      else s)"

definition tick_motor_action :: "node \<Rightarrow> node" where
  "tick_motor_action s =
     (if motor_action_delay s \<noteq> 0
      then (let s = s\<lparr>motor_action_delay := motor_action_delay s - 1\<rparr>
            in if motor_action_delay s = 0
               then s\<lparr>motor_action_event := True, wakeup_main := True\<rparr> else s)
      else s)"

definition tick_sensor_action :: "node \<Rightarrow> node" where
  "tick_sensor_action s =
     (if sensor_action_delay s \<noteq> 0
      then (let s = s\<lparr>sensor_action_delay := sensor_action_delay s - 1\<rparr>
            in if sensor_action_delay s = 0
               then s\<lparr>sensor_action_event := True, wakeup_main := True\<rparr> else s)
      else s)"

definition ticker_bottom :: "bool \<Rightarrow> bool \<Rightarrow> uint16 \<Rightarrow> node \<Rightarrow> node" where
  "ticker_bottom key_s2 key_s3 clock s =
     (let s = tick_one_second clock s;
          s = tick_key_s2 key_s2 s;
          s = tick_key_s3 key_s3 s;
          s = tick_motor_action s;
          s = tick_sensor_action s
      in s)"

text \<open>
  The 2 ms ticker interrupt \<^verbatim>\<open>ISR (TIMER2_COMPA_vect)\<close>.  The arguments are the key
  inputs at this interrupt.  \<^verbatim>\<open>(uint16_t)1440 * 6 * 7\<close> is 60480.
\<close>

definition ISR_TIMER2_COMPA :: "bool \<Rightarrow> bool \<Rightarrow> node \<Rightarrow> node" where
  "ISR_TIMER2_COMPA key_s2 key_s3 s =
     (let s = s\<lparr>two_ms_counter := two_ms_counter s + 1\<rparr>
      in if two_ms_counter s \<noteq> 5 then s
         else
           let s = s\<lparr>two_ms_counter := 0\<rparr>;
               s = s\<lparr>current_clock := current_clock s + 1\<rparr>;
               s = (if current_clock s \<ge> 1000
                    then (let s = s\<lparr>current_time := current_time s + 1\<rparr>;
                              s = (if current_time s = 1440 * 6 * 7
                                   then s\<lparr>current_time := 0\<rparr> else s)
                          in s\<lparr>current_clock := 0\<rparr>)
                    else s)
           in ticker_bottom key_s2 key_s3 (current_clock s) s)"

text \<open>A run of the interrupt over a sequence of key inputs, one pair per interrupt.\<close>

fun ticks :: "(bool \<times> bool) list \<Rightarrow> node \<Rightarrow> node" where
  "ticks [] s = s"
| "ticks ((key_s2, key_s3) # ks) s = ticks ks (ISR_TIMER2_COMPA key_s2 key_s3 s)"

text \<open>Successive calls of a key reader, one input per call; the flag of the last call.\<close>

fun read_keys_s2 :: "bool list \<Rightarrow> node \<Rightarrow> bool \<times> node" where
  "read_keys_s2 [] s = (False, s)"
| "read_keys_s2 [k] s = read_key_s2 k s"
| "read_keys_s2 (k # ks) s = read_keys_s2 ks (snd (read_key_s2 k s))"

fun read_keys_s3 :: "bool list \<Rightarrow> node \<Rightarrow> bool \<times> node" where
  "read_keys_s3 [] s = (False, s)"
| "read_keys_s3 [k] s = read_key_s3 k s"
| "read_keys_s3 (k # ks) s = read_keys_s3 ks (snd (read_key_s3 k s))"

section \<open>shutter.c: the controller\<close>

subsection \<open>Constants of the protocol headers\<close>

text \<open>
  The headers \<^verbatim>\<open>ebus.h\<close>, \<^verbatim>\<open>proto-busctl.h\<close> and \<^verbatim>\<open>proto-h61.h\<close> are not among the
  sources.  Their constants are the fields of a record that every function using one
  of them takes as its first argument; no value is assumed.  \<open>GIT_REVISION\<close> is the
  revision string compiled into the version answer.
\<close>

record protocol_h =
  PROTOCOL_EBUS_BUSCTL :: byte
  PROTOCOL_EBUS_H61 :: byte
  PROTOCOL_EBUS_DBGMSG :: byte
  P_BUSCTL_RESPMASK :: byte
  P_BUSCTL_TIME :: byte
  P_BUSCTL_QRY_TIME :: byte
  P_BUSCTL_QRY_VERSION :: byte
  P_BUSCTL_SET_DEBUG :: byte
  P_BUSCTL_QRY_DEBUG :: byte
  P_H61_RESPMASK :: byte
  P_H61_SHUTTER :: byte
  P_H61_SENSOR :: byte
  P_H61_SHUTTER_QUERY :: byte
  P_H61_SHUTTER_DRIVE :: byte
  P_H61_SHUTTER_QRY_TIMINGS :: byte
  P_H61_SHUTTER_UPD_TIMINGS :: byte
  P_H61_SHUTTER_QRY_SCHEDULE :: byte
  P_H61_SHUTTER_UPD_SCHEDULE :: byte
  P_H61_SENSOR_TEMPERATURE :: byte
  GIT_REVISION :: "byte list"

text \<open>
  Modelled from the spec: the macro \<^verbatim>\<open>MILLISEC\<close> of \<^verbatim>\<open>hardware.h\<close> is not among the
  sources.  Delays are counted in periods of the 10 ms ticker (\<^verbatim>\<open>ticker_bottom\<close>
  decrements them once per call; \<^verbatim>\<open>trigger_action\<close> calls the delay value 1 "10 ms"),
  so a delay of \<open>ms\<close> milliseconds is \<open>ms div 10\<close> periods.
\<close>

definition MILLISEC :: "uint16 \<Rightarrow> uint16" where
  "MILLISEC ms = ms div 10"

definition SCHEDULE_ACTION_NOP :: uint16 where "SCHEDULE_ACTION_NOP = 0"
definition SCHEDULE_ACTION_UP :: uint16 where "SCHEDULE_ACTION_UP = 1"
definition SCHEDULE_ACTION_DOWN :: uint16 where "SCHEDULE_ACTION_DOWN = 5"

subsection \<open>Buffers and the link layer\<close>

text \<open>
  A message is a buffer of 16 bytes, a list updated by index.  \<^verbatim>\<open>memset\<close> and
  \<^verbatim>\<open>memcpy\<close> write consecutive bytes from an offset.
\<close>

fun memset :: "byte list \<Rightarrow> nat \<Rightarrow> byte \<Rightarrow> nat \<Rightarrow> byte list" where
  "memset m p c 0 = m"
| "memset m p c (Suc n) = memset (m[p := c]) (Suc p) c n"

fun memcpy :: "byte list \<Rightarrow> nat \<Rightarrow> byte list \<Rightarrow> byte list" where
  "memcpy m p [] = m"
| "memcpy m p (b # bs) = memcpy (m[p := b]) (Suc p) bs"

text \<open>
  Modelled from the spec: the link layer (\<^verbatim>\<open>csma.c\<close>) with \<^verbatim>\<open>csma_send_message\<close> is not
  among the sources.  Its \<open>send(message)\<close> accepts one message for transmission; the
  model records every frame handed over, in order, in \<open>sent\<close>.
\<close>

definition csma_send_message :: "byte list \<Rightarrow> node \<Rightarrow> node" where
  "csma_send_message msg s = s\<lparr>sent := sent s @ [msg]\<rparr>"

text \<open>
  \<^verbatim>\<open>send_dbgmsg\<close>: with debug flags set, a frame of protocol \<^verbatim>\<open>PROTOCOL_EBUS_DBGMSG\<close>
  carrying the node id and the first 13 characters of the string, padded with zeros
  (\<^verbatim>\<open>memset\<close>, then \<^verbatim>\<open>strncpy\<close>).
\<close>

definition dbgmsg_frame :: "protocol_h \<Rightarrow> string \<Rightarrow> node \<Rightarrow> byte list" where
  "dbgmsg_frame K string s =
     [PROTOCOL_EBUS_DBGMSG K, nodeid_hi (config s), nodeid_lo (config s)]
     @ take 13 (map of_char string @ replicate 13 0)"

definition send_dbgmsg :: "protocol_h \<Rightarrow> string \<Rightarrow> node \<Rightarrow> node" where
  "send_dbgmsg K string s =
     (if debug_flags (config s) \<noteq> 0
      then csma_send_message (dbgmsg_frame K string s) s
      else s)"

subsection \<open>The motor\<close>

text \<open>
  \<^verbatim>\<open>trigger_action\<close>.  The key actions replace \<^verbatim>\<open>action\<close> and jump back to the
  \<^verbatim>\<open>switch\<close> (\<^verbatim>\<open>goto again\<close>); the \<^verbatim>\<open>default\<close> branch is for values outside the enum.
\<close>

function trigger_action :: "action_values \<Rightarrow> node \<Rightarrow> node" where
  "trigger_action action_none s =
     s\<lparr>motor_state := motor_state_pre_off, last_action := action_none,
       motor_action_delay := 1\<rparr>"
| "trigger_action action_up s =
     s\<lparr>motor_state := motor_state_pre_up, last_action := action_up,
       motor_action_delay := 1\<rparr>"
| "trigger_action action_down s =
     s\<lparr>motor_state := motor_state_pre_down, last_action := action_down,
       motor_action_delay := 1\<rparr>"
| "trigger_action action_up_key s =
     trigger_action (if last_action s = action_up then action_none else action_up) s"
| "trigger_action action_down_key s =
     trigger_action (if last_action s = action_down then action_none else action_down) s"
  by pat_completeness auto
termination
  by (relation "measure (\<lambda>(a, s). if a = action_up_key \<or> a = action_down_key then 1 else 0)")
    auto

text \<open>
  One pass through the \<^verbatim>\<open>switch\<close> of \<^verbatim>\<open>motor_action\<close>: the new delay and the node.
\<close>

definition motor_step :: "node \<Rightarrow> uint16 \<times> node" where
  "motor_step s =
     (case motor_state s of
        motor_state_off \<Rightarrow> (0, s)
      | motor_state_pre_off \<Rightarrow>
          (MILLISEC 200, s\<lparr>MOTOR_on := False, motor_state := motor_state_pre_off2\<rparr>)
      | motor_state_pre_off2 \<Rightarrow>
          (MILLISEC 200, s\<lparr>MOTOR_down := False, motor_state := motor_state_pre_off3\<rparr>)
      | motor_state_pre_off3 \<Rightarrow>
          (0, s\<lparr>LED_Collision := False, shutter_state := shutter_state s AND 0x3f,
                motor_state := motor_state_off\<rparr>)
      | motor_state_pre_up \<Rightarrow>
          (MILLISEC 200, s\<lparr>MOTOR_on := False, motor_state := motor_state_pre_up2\<rparr>)
      | motor_state_pre_up2 \<Rightarrow>
          (MILLISEC 200, s\<lparr>MOTOR_down := False, motor_state := motor_state_up\<rparr>)
      | motor_state_up \<Rightarrow>
          (MILLISEC 25000, s\<lparr>MOTOR_on := True, shutter_state := 0xc0,
                             motor_state := motor_state_up_ready\<rparr>)
      | motor_state_up_ready \<Rightarrow>
          (0, s\<lparr>shutter_state := 0x20, motor_state := motor_state_pre_off\<rparr>)
      | motor_state_pre_down \<Rightarrow>
          (MILLISEC 200, s\<lparr>MOTOR_on := False, motor_state := motor_state_pre_down2\<rparr>)
      | motor_state_pre_down2 \<Rightarrow>
          (MILLISEC 200, s\<lparr>MOTOR_down := True, motor_state := motor_state_down\<rparr>)
      | motor_state_down \<Rightarrow>
          (MILLISEC 25000, s\<lparr>MOTOR_on := True, shutter_state := 0x80,
                             motor_state := motor_state_down_ready\<rparr>)
      | motor_state_down_ready \<Rightarrow>
          (0, s\<lparr>shutter_state := 0x2f, motor_state := motor_state_pre_off\<rparr>))"

lemma motor_step_continues:
  "fst (motor_step s) = 0 \<Longrightarrow> motor_state (snd (motor_step s)) \<noteq> motor_state_off \<Longrightarrow>
   (motor_state s = motor_state_up_ready \<or> motor_state s = motor_state_down_ready)
   \<and> motor_state (snd (motor_step s)) = motor_state_pre_off"
  by (cases "motor_state s") (simp_all add: motor_step_def MILLISEC_def)

text \<open>
  \<^verbatim>\<open>motor_action\<close>: the \<^verbatim>\<open>do ... while (!newdelay && motor_state != motor_state_off)\<close>
  loop around the switch.
\<close>

function motor_action :: "node \<Rightarrow> uint16 \<times> node" where
  "motor_action s =
     (let (newdelay, s') = motor_step s
      in if newdelay = 0 \<and> motor_state s' \<noteq> motor_state_off
         then motor_action s' else (newdelay, s'))"
  by pat_completeness auto
termination
proof (relation "measure (\<lambda>s. if motor_state s = motor_state_up_ready
                                  \<or> motor_state s = motor_state_down_ready then 1 else 0)")
  show "wf (measure (\<lambda>s. if motor_state s = motor_state_up_ready
                            \<or> motor_state s = motor_state_down_ready then 1 else (0::nat)))"
    by simp
next
  fix s :: node and x :: "uint16 \<times> node" and newdelay :: uint16 and s' :: node
  assume x: "x = motor_step s" and p: "(newdelay, s') = x"
    and c: "newdelay = 0 \<and> motor_state s' \<noteq> motor_state_off"
  from x p have "motor_step s = (newdelay, s')"
    by simp
  then have "fst (motor_step s) = newdelay" "snd (motor_step s) = s'"
    by simp_all
  with c motor_step_continues[of s]
  show "(s', s) \<in> measure (\<lambda>s. if motor_state s = motor_state_up_ready
                                 \<or> motor_state s = motor_state_down_ready then 1 else 0)"
    by auto
qed

declare motor_action.simps [simp del]

text \<open>
  A sequence of calls made by the main loop: \<^verbatim>\<open>trigger_action\<close> (from a key, the
  schedule or a bus command) and \<^verbatim>\<open>motor_action\<close> (on the motor event).
\<close>

datatype motor_call = Trigger action_values | Motor

fun motor_calls :: "motor_call list \<Rightarrow> node \<Rightarrow> node" where
  "motor_calls [] s = s"
| "motor_calls (Trigger a # cs) s = motor_calls cs (trigger_action a s)"
| "motor_calls (Motor # cs) s = motor_calls cs (snd (motor_action s))"

text \<open>
  The nodes reachable from \<open>s0\<close> by calls of \<^verbatim>\<open>trigger_action\<close> and by single passes
  through the switch of \<^verbatim>\<open>motor_action\<close>; these include every node between two passes
  of one call.
\<close>

inductive motor_reach :: "node \<Rightarrow> node \<Rightarrow> bool" for s0 :: node where
  reach_start: "motor_reach s0 s0"
| reach_trigger: "motor_reach s0 s \<Longrightarrow> motor_reach s0 (trigger_action a s)"
| reach_step: "motor_reach s0 s \<Longrightarrow> motor_reach s0 (snd (motor_step s))"

subsection \<open>The schedule\<close>

text \<open>
  The loop of \<^verbatim>\<open>process_schedule\<close> over the table: it stops at the first zero entry and
  keeps in \<^verbatim>\<open>tfound\<close> the entry seen last with \<^verbatim>\<open>t > tlow && t <= thigh\<close>.
\<close>

fun schedule_walk :: "uint16 \<Rightarrow> uint16 \<Rightarrow> uint16 list \<Rightarrow> uint16 \<Rightarrow> uint16" where
  "schedule_walk tlow thigh [] tfound = tfound"
| "schedule_walk tlow thigh (t # ts) tfound =
     (if t = 0 then tfound
      else schedule_walk tlow thigh ts (if t > tlow \<and> t \<le> thigh then t else tfound))"

definition process_schedule :: "protocol_h \<Rightarrow> uint16 \<Rightarrow> uint16 \<Rightarrow> node \<Rightarrow> node" where
  "process_schedule K time forced_tlow s =
     (if \<not> time_has_been_set s then s
      else
        let s = (if schedule_last_tfound s > time \<or> forced_tlow \<noteq> 0
                 then s\<lparr>schedule_last_tfound := 0\<rparr> else s);
            time = time div 6;
            time = time * 6;
            tlow = (if forced_tlow \<noteq> 0 then forced_tlow else time);
            tlow = (if tlow \<ge> 5 * 6 then tlow - 5 * 6 else 0);
            tlow = (if schedule_last_tfound s \<noteq> 0 \<and> schedule_last_tfound s > tlow
                    then schedule_last_tfound s else tlow);
            thigh = time + 5;
            tfound = schedule_walk tlow thigh (schedule s) 0
        in if tfound \<noteq> 0
           then
             let s = s\<lparr>schedule_last_tfound := tfound\<rparr>;
                 tfound = tfound mod 6
             in if tfound = SCHEDULE_ACTION_UP
                then trigger_action action_up (send_dbgmsg K ''sch-act up'' s)
                else if tfound = SCHEDULE_ACTION_DOWN
                then trigger_action action_down (send_dbgmsg K ''sch-act dn'' s)
                else s
           else s)"

text \<open>
  \<^verbatim>\<open>init_eeprom\<close>: the first loop writes a pull-up and a pull-down entry per day (two
  writes per pass, the second after \<^verbatim>\<open>i++\<close>), the second loop clears the rest.  A write
  behind the end of the table leaves the table as it is.
\<close>

function init_eeprom_days ::
  "nat \<Rightarrow> uint16 \<Rightarrow> uint16 \<Rightarrow> uint16 list \<Rightarrow> nat \<times> uint16 list" where
  "init_eeprom_days i uptime downtime tbl =
     (if i < 7 * 2 \<and> i < length tbl
      then
        let uptime = (if i = 6 * 2 then uptime + 60 * 6 else uptime);
            tbl = tbl[i := uptime];
            i = i + 1;
            tbl = tbl[i := downtime];
            uptime = uptime + 24 * 60 * 6;
            downtime = downtime + 24 * 60 * 6
        in init_eeprom_days (i + 1) uptime downtime tbl
      else (i, tbl))"
  by pat_completeness auto
termination
  by (relation "measure (\<lambda>(i, uptime, downtime, tbl). 14 - i)") auto

function init_eeprom_clear :: "nat \<Rightarrow> uint16 list \<Rightarrow> uint16 list" where
  "init_eeprom_clear i tbl =
     (if i < length tbl then init_eeprom_clear (i + 1) (tbl[i := 0]) else tbl)"
  by pat_completeness auto
termination
  by (relation "measure (\<lambda>(i, tbl). length tbl - i)") auto

definition init_eeprom :: "byte \<Rightarrow> node \<Rightarrow> node" where
  "init_eeprom force s =
     (if force \<noteq> 0 \<or> hd (schedule s @ [0]) = 0
      then
        let uptime = (7 * 60 + 30) * 6 + SCHEDULE_ACTION_UP;
            downtime = (18 * 60 + 15) * 6 + SCHEDULE_ACTION_DOWN;
            (i, tbl) = init_eeprom_days 0 uptime downtime (schedule s)
        in s\<lparr>schedule := init_eeprom_clear i tbl\<rparr>
      else s)"

subsection \<open>Message handlers\<close>

text \<open>
  The loop of the schedule query: one frame per table entry, built in the request's
  buffer.  \<open>dim\<close> is \<^verbatim>\<open>DIM (schedule)\<close>, \<open>i\<close> the index of the head of the remaining
  entries.
\<close>

fun send_schedule :: "nat \<Rightarrow> nat \<Rightarrow> uint16 list \<Rightarrow> byte list \<Rightarrow> node \<Rightarrow> node" where
  "send_schedule dim i [] msg s = s"
| "send_schedule dim i (val16 # rest) msg s =
     (let msg = msg[13 := (if val16 mod 6 = SCHEDULE_ACTION_UP then 0xc0
                           else if val16 mod 6 = SCHEDULE_ACTION_DOWN then 0x80
                           else 0)];
          val16 = val16 div 6;
          val16 = val16 * 6;
          msg = msg[9 := of_nat dim];
          msg = msg[10 := of_nat i];
          msg = msg[11 := ucast (drop_bit 8 val16)];
          msg = msg[12 := ucast val16];
          msg = msg[14 := 0];
          msg = msg[15 := 0]
      in send_schedule dim (Suc i) rest msg (csma_send_message msg s))"

definition process_shutter_cmd :: "protocol_h \<Rightarrow> byte list \<Rightarrow> node \<Rightarrow> node" where
  "process_shutter_cmd K msg s =
     (if msg ! 6 = P_H61_SHUTTER_QUERY K then
        let msg = msg[1 := msg ! 3];
            msg = msg[2 := msg ! 4];
            msg = msg[3 := nodeid_hi (config s)];
            msg = msg[4 := nodeid_lo (config s)];
            msg = msg[5 := msg ! 5 OR P_BUSCTL_RESPMASK K];
            msg = msg[7 := 0];
            msg = msg[8 := shutter_state s];
            msg = memset msg 9 0 7
        in csma_send_message msg s
      else if msg ! 6 = P_H61_SHUTTER_DRIVE K then
        let (err, s) =
              (if msg ! 7 > 1
                  \<or> msg ! 9 \<noteq> 0 \<or> msg ! 10 \<noteq> 0 \<or> msg ! 11 \<noteq> 0 \<or> msg ! 12 \<noteq> 0
                  \<or> msg ! 13 \<noteq> 0 \<or> msg ! 14 \<noteq> 0 \<or> msg ! 15 \<noteq> 0
                  \<or> msg ! 8 AND 0x10 \<noteq> 0
                  \<or> msg ! 8 AND 0x20 \<noteq> 0
               then (1, s)
               else if msg ! 8 AND 0xc0 = 0xc0
               then (0, trigger_action action_up (send_dbgmsg K ''bus-act up'' s))
               else if msg ! 8 AND 0xc0 = 0x80
               then (0, trigger_action action_down (send_dbgmsg K ''bus-act dn'' s))
               else (1, s));
            msg = msg[1 := msg ! 3];
            msg = msg[2 := msg ! 4];
            msg = msg[3 := nodeid_hi (config s)];
            msg = msg[4 := nodeid_lo (config s)];
            msg = msg[5 := msg ! 5 OR P_BUSCTL_RESPMASK K];
            msg = msg[7 := err];
            msg = msg[8 := shutter_state s];
            msg = memset msg 9 0 7
        in csma_send_message msg s
      else if msg ! 6 = P_H61_SHUTTER_QRY_TIMINGS K then s
      else if msg ! 6 = P_H61_SHUTTER_UPD_TIMINGS K then s
      else if msg ! 6 = P_H61_SHUTTER_QRY_SCHEDULE K then
        let msg = msg[1 := msg ! 3];
            msg = msg[2 := msg ! 4];
            msg = msg[3 := nodeid_hi (config s)];
            msg = msg[4 := nodeid_lo (config s)];
            msg = msg[5 := msg ! 5 OR P_BUSCTL_RESPMASK K];
            msg = msg[7 := 0];
            msg = msg[8 := 0]
        in send_schedule (length (schedule s)) 0 (schedule s) msg s
      else if msg ! 6 = P_H61_SHUTTER_UPD_SCHEDULE K then
        (if msg ! 8 \<noteq> 0 \<or> msg ! 14 \<noteq> 0 \<or> msg ! 15 \<noteq> 0 \<or> msg ! 9 \<noteq> 1
            \<or> unat (msg ! 10) \<ge> length (schedule s)
         then
           (if msg ! 7 = 0xf0 \<and> msg ! 9 = 16 \<and> msg ! 10 = 0xf0
               \<and> msg ! 11 = 0xf0 \<and> msg ! 12 = 0xf0 \<and> msg ! 13 = 0xf0
            then init_eeprom 1 s else s)
         else
           let val16 = push_bit 8 (ucast (msg ! 11)) OR ucast (msg ! 12);
               val16 = val16 div 6;
               val16 = val16 * 6;
               val16 = (if msg ! 13 = 0xc0 then val16 + SCHEDULE_ACTION_UP
                        else if msg ! 13 = 0x80 then val16 + SCHEDULE_ACTION_DOWN
                        else val16)
           in s\<lparr>schedule := (schedule s)[unat (msg ! 10) := val16]\<rparr>)
      else s)"

text \<open>
  \<^verbatim>\<open>process_sensor_cmd\<close>.  The one-wire bus is hardware outside this model; what the
  handler leaves in the node is the request record and the armed delay.
\<close>

definition process_sensor_cmd :: "protocol_h \<Rightarrow> byte list \<Rightarrow> node \<Rightarrow> node" where
  "process_sensor_cmd K msg s =
     (if msg ! 6 = P_H61_SENSOR_TEMPERATURE K then
        (if active (sensor_ctrl s) \<noteq> 0 then
           (if msg ! 3 \<noteq> addr_hi (sensor_ctrl s) \<or> msg ! 4 \<noteq> addr_lo (sensor_ctrl s)
            then s\<lparr>sensor_ctrl := (sensor_ctrl s)\<lparr>addr_hi := 0xff, addr_lo := 0xff\<rparr>\<rparr>
            else s)
         else
           s\<lparr>sensor_ctrl := \<lparr>active = 5, addr_hi = msg ! 3, addr_lo = msg ! 4\<rparr>,
             sensor_action_delay := MILLISEC 900, sensor_action_event := False\<rparr>)
      else s)"

text \<open>
  \<^verbatim>\<open>_crc_ibutton_update\<close> belongs to the C library of the controller (avr-libc); this is
  the C routine its manual gives for it: exclusive-or the byte into the CRC, then eight
  times shift right, with 0x8c exclusive-ored in when the bit shifted out is set.
\<close>

fun crc_ibutton_bits :: "nat \<Rightarrow> byte \<Rightarrow> byte" where
  "crc_ibutton_bits 0 crc = crc"
| "crc_ibutton_bits (Suc i) crc =
     crc_ibutton_bits i
       (if crc AND 0x01 \<noteq> 0 then drop_bit 1 crc XOR 0x8c else drop_bit 1 crc)"

definition crc_ibutton_update :: "byte \<Rightarrow> byte \<Rightarrow> byte" where
  "crc_ibutton_update crc data = crc_ibutton_bits 8 (crc XOR data)"

text \<open>
  The temperature computed by \<^verbatim>\<open>send_sensor_result\<close> from the scratchpad bytes 0, 1 and
  6.  The arithmetic is that of the 16-bit \<^verbatim>\<open>int\<close> of the controller: division truncates
  towards zero; where \<^verbatim>\<open>t*100\<close> leaves the range the model wraps around.
\<close>

definition sensor_temperature :: "byte list \<Rightarrow> uint16" where
  "sensor_temperature msg =
     (let t = (push_bit 8 (ucast (msg ! 1)) OR ucast (msg ! 0) :: uint16);
          r = (word_of_int (sint ((16 - ucast (msg ! 6)) * 100 :: uint16) sdiv 16) :: uint16)
      in word_of_int (sint (t * 100 - 25 + r) sdiv 20))"

text \<open>
  \<^verbatim>\<open>send_sensor_result\<close>, called by the main loop on the sensor event.  \<open>scratchpad\<close> holds
  the nine bytes that the calls of \<^verbatim>\<open>onewire_read_byte\<close> return.  The retry counter is
  only decremented when the read failed (\<^verbatim>\<open>||\<close> short-circuits).
\<close>

definition send_sensor_result :: "protocol_h \<Rightarrow> byte list \<Rightarrow> node \<Rightarrow> node" where
  "send_sensor_result K scratchpad s =
     (if active (sensor_ctrl s) = 0 then s
      else
        let msg = take 9 scratchpad;
            crc = fold (\<lambda>data crc. crc_ibutton_update crc data) (take 8 msg) 0;
            t = (if msg ! 8 = crc then sensor_temperature msg else 0x7fff);
            s = (if t \<noteq> 0x7fff then s
                 else s\<lparr>sensor_ctrl := (sensor_ctrl s)\<lparr>active := active (sensor_ctrl s) - 1\<rparr>\<rparr>)
        in if t \<noteq> 0x7fff \<or> active (sensor_ctrl s) = 0
           then
             let s = csma_send_message
                       [PROTOCOL_EBUS_H61 K,
                        addr_hi (sensor_ctrl s), addr_lo (sensor_ctrl s),
                        nodeid_hi (config s), nodeid_lo (config s),
                        P_H61_SENSOR K OR P_H61_RESPMASK K,
                        P_H61_SENSOR_TEMPERATURE K,
                        0x11,
                        ucast (drop_bit 8 t), ucast t,
                        0x80, 0, 0x80, 0, 0x80, 0] s
             in s\<lparr>sensor_ctrl := (sensor_ctrl s)\<lparr>active := 0\<rparr>\<rparr>
           else
             let s = send_dbgmsg K ''sens #4'' s
             in s\<lparr>sensor_action_delay := MILLISEC 1100, sensor_action_event := False\<rparr>)"

definition process_ebus_h61 :: "protocol_h \<Rightarrow> byte list \<Rightarrow> node \<Rightarrow> node" where
  "process_ebus_h61 K msg s =
     (let is_response = (msg ! 5 AND P_H61_RESPMASK K \<noteq> 0)
      in if \<not> (msg ! 1 = nodeid_hi (config s) \<and> msg ! 2 = nodeid_lo (config s)) then s
         else if msg ! 5 AND NOT (P_H61_RESPMASK K) = P_H61_SHUTTER K then
           (if \<not> is_response then process_shutter_cmd K msg s else s)
         else if msg ! 5 AND NOT (P_H61_RESPMASK K) = P_H61_SENSOR K then
           (if \<not> is_response then process_sensor_cmd K msg s else s)
         else s)"

definition process_ebus_busctl :: "protocol_h \<Rightarrow> byte list \<Rightarrow> node \<Rightarrow> node" where
  "process_ebus_busctl K msg s =
     (let is_response = (msg ! 5 AND P_BUSCTL_RESPMASK K \<noteq> 0)
      in if is_response then s
         else if msg ! 3 = 0xff \<or> msg ! 4 = 0xff \<or> msg ! 4 = 0 then s
         else if \<not> ((msg ! 1 = nodeid_hi (config s) \<and> msg ! 2 = nodeid_lo (config s))
                   \<or> ((msg ! 1 = nodeid_hi (config s) \<or> msg ! 1 = 0xff) \<and> msg ! 2 = 0xff))
         then s
         else if msg ! 5 AND NOT (P_BUSCTL_RESPMASK K) = P_BUSCTL_TIME K then
           let t = get_current_time s;
               val16 = push_bit 8 (ucast (msg ! 7)) OR ucast (msg ! 8);
               val8 = (if msg ! 6 AND 0x02 \<noteq> 0 then msg ! 9 else 0);
               s = set_current_fulltime val16 val8 s
           in if val16 > t then process_schedule K val16 t s else s
         else if msg ! 5 AND NOT (P_BUSCTL_RESPMASK K) = P_BUSCTL_QRY_TIME K then
           let msg = msg[1 := msg ! 3];
               msg = msg[2 := msg ! 4];
               msg = msg[3 := nodeid_hi (config s)];
               msg = msg[4 := nodeid_lo (config s)];
               msg = msg[5 := msg ! 5 OR P_BUSCTL_RESPMASK K];
               msg = msg[6 := 0];
               (val16, val8) = get_current_fulltime s;
               msg = msg[7 := ucast (drop_bit 8 val16)];
               msg = msg[8 := ucast val16];
               msg = msg[9 := val8];
               msg = memset msg 10 0 6
           in csma_send_message msg s
         else if msg ! 5 AND NOT (P_BUSCTL_RESPMASK K) = P_BUSCTL_QRY_VERSION K then
           let msg = msg[1 := msg ! 3];
               msg = msg[2 := msg ! 4];
               msg = msg[3 := nodeid_hi (config s)];
               msg = msg[4 := nodeid_lo (config s)];
               msg = msg[5 := msg ! 5 OR P_BUSCTL_RESPMASK K];
               msg = msg[6 := ee_nodetype s];
               msg = msg[7 := 0];
               msg = memcpy msg 8 (take 7 (GIT_REVISION K));
               msg = msg[15 := 0]
           in csma_send_message msg s
         else if msg ! 5 AND NOT (P_BUSCTL_RESPMASK K) = P_BUSCTL_SET_DEBUG K then
           set_debug_flags (msg ! 6) s
         else if msg ! 5 AND NOT (P_BUSCTL_RESPMASK K) = P_BUSCTL_QRY_DEBUG K then
           let msg = msg[1 := msg ! 3];
               msg = msg[2 := msg ! 4];
               msg = msg[3 := nodeid_hi (config s)];
               msg = msg[4 := nodeid_lo (config s)];
               msg = msg[5 := msg ! 5 OR P_BUSCTL_RESPMASK K];
               msg = msg[6 := debug_flags (config s)];
               msg = msg[7 := reset_flags (config s)];
               msg = memset msg 8 0 8
           in csma_send_message msg s
         else s)"

text \<open>The dispatch on the protocol byte in the loop of \<^verbatim>\<open>main\<close>.\<close>

definition process_message :: "protocol_h \<Rightarrow> byte list \<Rightarrow> node \<Rightarrow> node" where
  "process_message K msg s =
     (if msg ! 0 = PROTOCOL_EBUS_BUSCTL K then process_ebus_busctl K msg s
      else if msg ! 0 = PROTOCOL_EBUS_H61 K then process_ebus_h61 K msg s
      else s)"

subsection \<open>Notions used in the proofs about the key readers\<close>

text \<open>
  Both key readers update their shift register in the same way: shift left, shift in
  the negated key input, set the five top bits.  \<open>low_run j st\<close> says that bit \<open>j\<close> of
  \<open>st\<close> is set and all bits below it are clear.
\<close>

definition debounce_shift :: "bool \<Rightarrow> uint16 \<Rightarrow> uint16" where
  "debounce_shift k st = (push_bit 1 st OR (if \<not> k then 1 else 0)) OR 0xf800"

definition low_run :: "nat \<Rightarrow> uint16 \<Rightarrow> bool" where
  "low_run j st = (bit st j \<and> (\<forall>n<j. \<not> bit st n))"

subsection \<open>Notions used in the proofs about the motor\<close>

text \<open>
  \<open>motor_is_off s\<close> lists the states of the machine in which the motor output must be
  off: the states whose pass switches the direction relay or the motor on, and the
  states behind the off sequence.
\<close>

definition motor_is_off :: "node \<Rightarrow> bool" where
  "motor_is_off s =
     (motor_state s = motor_state_off \<or> motor_state s = motor_state_pre_off2
      \<or> motor_state s = motor_state_pre_off3 \<or> motor_state s = motor_state_pre_up2
      \<or> motor_state s = motor_state_up \<or> motor_state s = motor_state_pre_down2
      \<or> motor_state s = motor_state_down)"

text \<open>
  A run-up from \<open>s1\<close> in direction \<open>dir\<close> (true for down): three calls of
  \<^verbatim>\<open>motor_action\<close>.  The first switches the motor off, leaves the direction relay alone
  and asks for 200 ms; the second sets the direction relay with the motor still off and
  asks for 200 ms; the third switches the motor on for 25 s.
\<close>

definition run_up :: "bool \<Rightarrow> node \<Rightarrow> bool" where
  "run_up dir s1 =
     (let (d1, s2) = motor_action s1;
          (d2, s3) = motor_action s2;
          (d3, s4) = motor_action s3
      in d1 = MILLISEC 200 \<and> \<not> MOTOR_on s2 \<and> MOTOR_down s2 = MOTOR_down s1
       \<and> d2 = MILLISEC 200 \<and> \<not> MOTOR_on s3 \<and> MOTOR_down s3 = dir
       \<and> d3 = MILLISEC 25000 \<and> MOTOR_on s4 \<and> MOTOR_down s4 = dir)"

subsection \<open>Notions used in the statements about the handlers\<close>

text \<open>
  An assignment of the protocol constants for the examples.  The values are made up;
  the theorems about the handlers hold for every assignment.
\<close>

definition protocol_sample :: protocol_h where
  "protocol_sample =
     \<lparr> PROTOCOL_EBUS_BUSCTL = 0x81, PROTOCOL_EBUS_H61 = 0x86, PROTOCOL_EBUS_DBGMSG = 0x8f,
       P_BUSCTL_RESPMASK = 0x80, P_BUSCTL_TIME = 1, P_BUSCTL_QRY_TIME = 2,
       P_BUSCTL_QRY_VERSION = 3, P_BUSCTL_SET_DEBUG = 5, P_BUSCTL_QRY_DEBUG = 6,
       P_H61_RESPMASK = 0x80, P_H61_SHUTTER = 0x10, P_H61_SENSOR = 0x20,
       P_H61_SHUTTER_QUERY = 1, P_H61_SHUTTER_DRIVE = 2, P_H61_SHUTTER_QRY_TIMINGS = 3,
       P_H61_SHUTTER_UPD_TIMINGS = 4, P_H61_SHUTTER_QRY_SCHEDULE = 5,
       P_H61_SHUTTER_UPD_SCHEDULE = 6, P_H61_SENSOR_TEMPERATURE = 1,
       GIT_REVISION = [0x30, 0x31, 0x32, 0x33, 0x34, 0x35, 0x36] \<rparr>"

text \<open>
  A drive command is malformed when the shutter index is above 1, a reserved byte (9 to
  15) is not zero, the reserved bit 0x10 or the unsupported bit 0x20 of the action byte
  is set, or the action bits 0xc0 are neither 0xc0 (up) nor 0x80 (down).
\<close>

definition drive_malformed :: "byte list \<Rightarrow> bool" where
  "drive_malformed msg =
     (msg ! 7 > 1
      \<or> (\<exists>i\<in>set [9..<16]. msg ! i \<noteq> 0)
      \<or> msg ! 8 AND 0x10 \<noteq> 0 \<or> msg ! 8 AND 0x20 \<noteq> 0
      \<or> (msg ! 8 AND 0xc0 \<noteq> 0xc0 \<and> msg ! 8 AND 0xc0 \<noteq> 0x80))"

text \<open>
  A bus-control message is accepted when it is no response, its sender address is valid
  (neither byte 0xff, low byte not 0) and it is directed to the node or broadcast (low
  byte 0xff, high byte the node's or 0xff).
\<close>

definition busctl_accepted :: "protocol_h \<Rightarrow> byte list \<Rightarrow> node \<Rightarrow> bool" where
  "busctl_accepted K msg s =
     (msg ! 5 AND P_BUSCTL_RESPMASK K = 0
      \<and> msg ! 3 \<noteq> 0xff \<and> msg ! 4 \<noteq> 0xff \<and> msg ! 4 \<noteq> 0
      \<and> ((msg ! 1 = nodeid_hi (config s) \<and> msg ! 2 = nodeid_lo (config s))
          \<or> ((msg ! 1 = nodeid_hi (config s) \<or> msg ! 1 = 0xff) \<and> msg ! 2 = 0xff)))"

text \<open>The time and the tenths of a second carried by a TIME message.\<close>

definition time_msg_time :: "byte list \<Rightarrow> uint16" where
  "time_msg_time msg = push_bit 8 (ucast (msg ! 7)) OR ucast (msg ! 8)"

definition time_msg_deci :: "byte list \<Rightarrow> byte" where
  "time_msg_deci msg = (if msg ! 6 AND 0x02 \<noteq> 0 then msg ! 9 else 0)"

text \<open>A drive command for the examples: shutter 1, up, sent by node 0:1 to node 0:17.\<close>

definition drive_up_msg :: "byte list" where
  "drive_up_msg = [0x86, 0, 17, 0, 1, 0x10, 2, 1, 0xc0, 0, 0, 0, 0, 0, 0, 0]"

subsection \<open>Notions used in the statements about the schedule\<close>

text \<open>
  The values \<^verbatim>\<open>process_schedule\<close> computes, as functions of its arguments and the node:
  the remembered time after the first statement, the bounds \<^verbatim>\<open>tlow\<close> and \<^verbatim>\<open>thigh\<close>, and
  the entry \<^verbatim>\<open>tfound\<close> left by the loop.  \<open>schedule_fire\<close> is the last \<^verbatim>\<open>if\<close> of the
  function: the action for the entry found.
\<close>

definition schedule_last_reset :: "uint16 \<Rightarrow> uint16 \<Rightarrow> node \<Rightarrow> uint16" where
  "schedule_last_reset time forced_tlow s =
     (if schedule_last_tfound s > time \<or> forced_tlow \<noteq> 0 then 0 else schedule_last_tfound s)"

definition schedule_tlow :: "uint16 \<Rightarrow> uint16 \<Rightarrow> node \<Rightarrow> uint16" where
  "schedule_tlow time forced_tlow s =
     (let l = schedule_last_reset time forced_tlow s;
          tlow = (if forced_tlow \<noteq> 0 then forced_tlow else time div 6 * 6);
          tlow = (if tlow \<ge> 30 then tlow - 30 else 0)
      in if l \<noteq> 0 \<and> l > tlow then l else tlow)"

definition schedule_thigh :: "uint16 \<Rightarrow> uint16" where
  "schedule_thigh time = time div 6 * 6 + 5"

definition schedule_tfound :: "uint16 \<Rightarrow> uint16 \<Rightarrow> node \<Rightarrow> uint16" where
  "schedule_tfound time forced_tlow s =
     schedule_walk (schedule_tlow time forced_tlow s) (schedule_thigh time) (schedule s) 0"

definition schedule_fire :: "protocol_h \<Rightarrow> uint16 \<Rightarrow> node \<Rightarrow> node" where
  "schedule_fire K tfound s =
     (if tfound mod 6 = 1 then trigger_action action_up (send_dbgmsg K ''sch-act up'' s)
      else if tfound mod 6 = 5 then trigger_action action_down (send_dbgmsg K ''sch-act dn'' s)
      else s)"

text \<open>
  The response convention: destination taken from the request's source, source the
  node id, response mask set in the command byte.  A frame sent while a message is
  handled is a debug frame or a frame with the request's protocol byte that obeys the
  convention; \<open>emits K msg b s s'\<close> says that \<open>s'\<close> has sent such frames on top of \<open>s\<close>,
  judged against the node id of \<open>b\<close>.
\<close>

definition response_convention :: "protocol_h \<Rightarrow> byte list \<Rightarrow> node \<Rightarrow> byte list \<Rightarrow> bool" where
  "response_convention K msg s r =
     (r ! 1 = msg ! 3 \<and> r ! 2 = msg ! 4
      \<and> r ! 3 = nodeid_hi (config s) \<and> r ! 4 = nodeid_lo (config s)
      \<and> r ! 5 AND P_BUSCTL_RESPMASK K = P_BUSCTL_RESPMASK K)"

definition handler_frame :: "protocol_h \<Rightarrow> byte list \<Rightarrow> node \<Rightarrow> byte list \<Rightarrow> bool" where
  "handler_frame K msg s r =
     ((\<exists>string. r = dbgmsg_frame K string s)
      \<or> (r ! 0 = msg ! 0 \<and> response_convention K msg s r))"

definition emits :: "protocol_h \<Rightarrow> byte list \<Rightarrow> node \<Rightarrow> node \<Rightarrow> node \<Rightarrow> bool" where
  "emits K msg b s s' =
     (\<exists>new. sent s' = sent s @ new \<and> (\<forall>r\<in>set new. handler_frame K msg b r))"

subsection \<open>Messages for the examples\<close>

text \<open>
  A TIME broadcast from node 0:1 carrying Monday 07:30:05 (time 2700, 50 tenths of a
  second), and a time query from node 0:1 to node 0:17.
\<close>

definition time_msg_example :: "byte list" where
  "time_msg_example = [0x81, 0xff, 0xff, 0, 1, 1, 0x02, 0x0a, 0x8c, 50, 0, 0, 0, 0, 0, 0]"

definition qry_time_msg :: "byte list" where
  "qry_time_msg = [0x81, 0, 17, 0, 1, 2, 0, 0, 0, 0, 0, 0, 0, 0, 0, 0]"

subsection \<open>Notions used in the statements about schedule evaluation\<close>

text \<open>
  The window of an evaluation holds the entries \<open>t\<close> with \<open>tlow < t \<le> thigh\<close>.  The
  table counts up to its first zero entry; \<open>last_in_window\<close> is the last entry of that
  part, in table order, inside the window, or 0 when there is none.
\<close>

definition in_window :: "uint16 \<Rightarrow> uint16 \<Rightarrow> uint16 \<Rightarrow> bool" where
  "in_window tlow thigh t = (tlow < t \<and> t \<le> thigh)"

definition last_in_window :: "uint16 \<Rightarrow> uint16 \<Rightarrow> uint16 list \<Rightarrow> uint16" where
  "last_in_window tlow thigh tbl =
     last (0 # filter (in_window tlow thigh) (takeWhile (\<lambda>t. t \<noteq> 0) tbl))"


text \<open>
  Successive evaluations without a forced low bound, as the main loop makes them once a
  minute.  \<open>no_wrap\<close> says that none of them meets the test
  \<^verbatim>\<open>schedule_last_tfound > time\<close>, by which the code tells that the week has wrapped.
\<close>

fun evaluations :: "protocol_h \<Rightarrow> uint16 list \<Rightarrow> node \<Rightarrow> node" where
  "evaluations K [] s = s"
| "evaluations K (t # ts) s = evaluations K ts (process_schedule K t 0 s)"

fun no_wrap :: "protocol_h \<Rightarrow> uint16 list \<Rightarrow> node \<Rightarrow> bool" where
  "no_wrap K [] s = True"
| "no_wrap K (t # ts) s =
     (schedule_last_tfound s \<le> t \<and> no_wrap K ts (process_schedule K t 0 s))"

text \<open>
  Nodes for the examples: the reset node with the clock marked as set and a given
  schedule, and the reset node with a given clock value and schedule.
\<close>

definition schedule_example :: "uint16 list \<Rightarrow> node" where
  "schedule_example tbl = node_reset\<lparr>time_has_been_set := True, schedule := tbl\<rparr>"

definition clock_example :: "uint16 \<Rightarrow> uint16 list \<Rightarrow> node" where
  "clock_example t tbl = node_reset\<lparr>current_time := t, schedule := tbl\<rparr>"

subsection \<open>Notions used in the statements about the sensor answer\<close>

text \<open>
  The header of the answer to a temperature request: protocol byte, destination taken
  from the request record \<^verbatim>\<open>sensor_ctrl\<close>, source the node id, command byte
  \<^verbatim>\<open>P_H61_SENSOR | P_H61_RESPMASK\<close>.  \<open>sensor_request\<close> is a temperature request from node
  0:1 to node 0:17 for the examples.
\<close>

definition sensor_answer :: "protocol_h \<Rightarrow> node \<Rightarrow> byte list \<Rightarrow> bool" where
  "sensor_answer K s r =
     (r ! 0 = PROTOCOL_EBUS_H61 K
      \<and> r ! 1 = addr_hi (sensor_ctrl s) \<and> r ! 2 = addr_lo (sensor_ctrl s)
      \<and> r ! 3 = nodeid_hi (config s) \<and> r ! 4 = nodeid_lo (config s)
      \<and> r ! 5 = P_H61_SENSOR K OR P_H61_RESPMASK K)"

definition sensor_request :: "byte list" where
  "sensor_request = [0x86, 0, 17, 0, 1, 0x20, 1, 0, 0, 0, 0, 0, 0, 0, 0, 0]"

section \<open>Verification\<close>

subsection \<open>The clock under the ticker interrupt\<close>

lemma tick_one_second_clock:
  "current_clock (tick_one_second c s) = current_clock s"
  "current_time (tick_one_second c s) = current_time s"
  "two_ms_counter (tick_one_second c s) = two_ms_counter s"
  by (simp_all add: tick_one_second_def)

lemma tick_key_s2_clock:
  "current_clock (tick_key_s2 k s) = current_clock s"
  "current_time (tick_key_s2 k s) = current_time s"
  "two_ms_counter (tick_key_s2 k s) = two_ms_counter s"
  by (simp_all add: tick_key_s2_def read_key_s2_def Let_def)

lemma tick_key_s3_clock:
  "current_clock (tick_key_s3 k s) = current_clock s"
  "current_time (tick_key_s3 k s) = current_time s"
  "two_ms_counter (tick_key_s3 k s) = two_ms_counter s"
  by (simp_all add: tick_key_s3_def read_key_s3_def Let_def)

lemma tick_motor_action_clock:
  "current_clock (tick_motor_action s) = current_clock s"
  "current_time (tick_motor_action s) = current_time s"
  "two_ms_counter (tick_motor_action s) = two_ms_counter s"
  by (simp_all add: tick_motor_action_def Let_def)

lemma tick_sensor_action_clock:
  "current_clock (tick_sensor_action s) = current_clock s"
  "current_time (tick_sensor_action s) = current_time s"
  "two_ms_counter (tick_sensor_action s) = two_ms_counter s"
  by (simp_all add: tick_sensor_action_def Let_def)

lemma ticker_bottom_clock:
  "current_clock (ticker_bottom k2 k3 c s) = current_clock s"
  "current_time (ticker_bottom k2 k3 c s) = current_time s"
  "two_ms_counter (ticker_bottom k2 k3 c s) = two_ms_counter s"
  by (simp_all add: ticker_bottom_def Let_def tick_one_second_clock tick_key_s2_clock
      tick_key_s3_clock tick_motor_action_clock tick_sensor_action_clock)

lemma ISR_clock_step:
  "current_clock (ISR_TIMER2_COMPA k2 k3 s) =
     (if two_ms_counter s + 1 \<noteq> 5 then current_clock s
      else if current_clock s + 1 \<ge> 1000 then 0 else current_clock s + 1)"
  "current_time (ISR_TIMER2_COMPA k2 k3 s) =
     (if two_ms_counter s + 1 \<noteq> 5 then current_time s
      else if current_clock s + 1 \<ge> 1000
           then (if current_time s + 1 = 60480 then 0 else current_time s + 1)
           else current_time s)"
  by (simp_all add: ISR_TIMER2_COMPA_def Let_def ticker_bottom_clock)

lemma unat_succ_clock: "(c::uint16) < 60480 \<Longrightarrow> unat (c + 1) = unat c + 1"
  by (simp add: word_less_nat_alt unat_word_ariths)

lemma clock_rollover: "(c::uint16) < 1000 \<Longrightarrow> (1000 \<le> c + 1) = (c = 999)"
proof -
  assume a: "c < 1000"
  then have "c < 60480" by (simp add: word_less_nat_alt)
  from unat_succ_clock[OF this] a show ?thesis
   by (auto simp add: word_le_nat_alt word_less_nat_alt word_unat_eq_iff)
qed

lemma week_rollover: "(t::uint16) < 60480 \<Longrightarrow> (t + 1 = 60480) = (t = 60479)"
  using unat_succ_clock[of t] by (auto simp add: word_less_nat_alt word_unat_eq_iff)

lemma fifth_tick: "((b::byte) + 1 = 5) = (b = 4)"
proof
  assume "b + 1 = 5"
  then have "b + 1 - 1 = 5 - 1" by simp
  then show "b = 4" by simp
next
  assume "b = 4" then show "b + 1 = 5" by simp
qed

lemma clock_succ_less: "(c::uint16) < 1000 \<Longrightarrow> c \<noteq> 999 \<Longrightarrow> c + 1 < 1000"
  using clock_rollover[of c] by auto

lemma week_succ_less: "(t::uint16) < 60480 \<Longrightarrow> t \<noteq> 60479 \<Longrightarrow> t + 1 < 60480"
  using unat_succ_clock[of t] by (auto simp add: word_less_nat_alt word_unat_eq_iff)

lemma ISR_clock_inv:
  assumes "current_clock s < 1000" "current_time s < 60480"
  shows "current_clock (ISR_TIMER2_COMPA k2 k3 s) < 1000"
    and "current_time (ISR_TIMER2_COMPA k2 k3 s) < 60480"
  using assms
  by (simp_all add: ISR_clock_step fifth_tick clock_rollover week_rollover
        clock_succ_less week_succ_less)

lemma ticks_clock_inv:
  "current_clock s < 1000 \<Longrightarrow> current_time s < 60480 \<Longrightarrow>
   current_clock (ticks ks s) < 1000 \<and> current_time (ticks ks s) < 60480"
proof (induction ks arbitrary: s)
  case Nil
  then show ?case by simp
next
  case (Cons k ks)
  obtain k2 k3 where k: "k = (k2, k3)" by (cases k)
  show ?case unfolding k ticks.simps
    by (rule Cons.IH) (simp_all add: ISR_clock_inv Cons.prems)
qed

text \<open>
  Claim C8.  Under ticker interrupts the clock stays in range: if \<open>current_clock\<close> is
  below 1000 and \<open>current_time\<close> below 60480 (as they are after reset), they are so after
  any number of interrupts, whatever the keys do.  An interrupt that is not the fifth
  since the last 10 ms tick leaves both alone; the fifth one adds one to
  \<open>current_clock\<close>, and when that would reach 1000 it puts \<open>current_clock\<close> back to 0 and
  adds one to \<open>current_time\<close>, which goes back to 0 at the weekly boundary 60480.
\<close>

theorem clock_invariant:
  assumes "current_clock s < 1000" and "current_time s < 60480"
  shows "current_clock (ticks ks s) < 1000 \<and> current_time (ticks ks s) < 60480
    \<and> (two_ms_counter s \<noteq> 4 \<longrightarrow>
           current_clock (ISR_TIMER2_COMPA k2 k3 s) = current_clock s
         \<and> current_time (ISR_TIMER2_COMPA k2 k3 s) = current_time s)
    \<and> (two_ms_counter s = 4 \<and> current_clock s \<noteq> 999 \<longrightarrow>
           current_clock (ISR_TIMER2_COMPA k2 k3 s) = current_clock s + 1
         \<and> current_time (ISR_TIMER2_COMPA k2 k3 s) = current_time s)
    \<and> (two_ms_counter s = 4 \<and> current_clock s = 999 \<longrightarrow>
           current_clock (ISR_TIMER2_COMPA k2 k3 s) = 0
         \<and> current_time (ISR_TIMER2_COMPA k2 k3 s) =
             (if current_time s = 60479 then 0 else current_time s + 1))"
proof -
  note st = ISR_clock_step fifth_tick clock_rollover[OF assms(1)] week_rollover[OF assms(2)]
  have a: "current_clock (ticks ks s) < 1000 \<and> current_time (ticks ks s) < 60480"
    using assms by (rule ticks_clock_inv)
  have b: "two_ms_counter s \<noteq> 4 \<longrightarrow>
           current_clock (ISR_TIMER2_COMPA k2 k3 s) = current_clock s
         \<and> current_time (ISR_TIMER2_COMPA k2 k3 s) = current_time s"
    by (simp add: st)
  have c: "two_ms_counter s = 4 \<and> current_clock s \<noteq> 999 \<longrightarrow>
           current_clock (ISR_TIMER2_COMPA k2 k3 s) = current_clock s + 1
         \<and> current_time (ISR_TIMER2_COMPA k2 k3 s) = current_time s"
    by (simp add: st)
  have d: "two_ms_counter s = 4 \<and> current_clock s = 999 \<longrightarrow>
           current_clock (ISR_TIMER2_COMPA k2 k3 s) = 0
         \<and> current_time (ISR_TIMER2_COMPA k2 k3 s) =
             (if current_time s = 60479 then 0 else current_time s + 1)"
    by (simp add: st)
  from a b c d show ?thesis by blast
qed

theorem clock_invariant_witness:
  "current_clock node_reset < 1000 \<and> current_time node_reset < 60480
   \<and> current_clock (ticks (replicate 5000 (True, True)) node_reset) < 1000
   \<and> current_time (ticks (replicate 5000 (True, True)) node_reset) < 60480
   \<and> two_ms_counter (node_reset\<lparr>two_ms_counter := 4, current_clock := 999, current_time := 60479\<rparr>) = 4
   \<and> current_clock (ISR_TIMER2_COMPA True True
        (node_reset\<lparr>two_ms_counter := 4, current_clock := 999, current_time := 60479\<rparr>)) = 0
   \<and> current_time (ISR_TIMER2_COMPA True True
        (node_reset\<lparr>two_ms_counter := 4, current_clock := 999, current_time := 60479\<rparr>)) = 0"
proof -
  have h: "current_clock node_reset < 1000" "current_time node_reset < 60480"
    by (simp_all add: node_reset_def)
  let ?s = "node_reset\<lparr>two_ms_counter := 4, current_clock := 999, current_time := 60479\<rparr>"
  have g: "current_clock ?s < 1000" "current_time ?s < 60480"
    by simp_all
  show ?thesis
    using h clock_invariant[OF h, of "replicate 5000 (True, True)" True True]
      clock_invariant[OF g, of "[]" True True]
    by simp
qed

subsection \<open>The key readers\<close>

lemma f800_shape: "(0xf800::uint16) = push_bit 11 (mask 5)"
  by (simp add: mask_eq_exp_minus_1)

lemma bit_f800: "bit (0xf800::uint16) n \<longleftrightarrow> 11 \<le> n \<and> n < 16"
  unfolding f800_shape by (auto simp add: bit_push_bit_iff bit_mask_iff)

lemma fc00_shape: "(0xfc00::uint16) = push_bit 10 (mask 6)"
  by (simp add: mask_eq_exp_minus_1)

lemma bit_fc00: "bit (0xfc00::uint16) n \<longleftrightarrow> 10 \<le> n \<and> n < 16"
  unfolding fc00_shape by (auto simp add: bit_push_bit_iff bit_mask_iff)

lemma bit_debounce_shift:
  "bit (debounce_shift k st) n \<longleftrightarrow>
     n < 16 \<and> ((0 < n \<and> bit st (n - 1)) \<or> (n = 0 \<and> \<not> k) \<or> 11 \<le> n)"
proof -
  have a: "bit (push_bit 1 st) n \<longleftrightarrow> n < 16 \<and> 0 < n \<and> bit st (n - 1)"
    by (auto simp only: bit_push_bit_iff possible_bit_word len_bit0 len_num1) 
  have b: "bit (if \<not> k then 1 else 0 :: uint16) n \<longleftrightarrow> n = 0 \<and> \<not> k"
    by (cases k) (simp_all only: bit_1_iff bit_0_eq if_True if_False not_True_eq_False not_False_eq_True, auto)
  show ?thesis
    unfolding debounce_shift_def bit_or_iff a b bit_f800 by auto
qed

lemma low_run_shift_0: "low_run 0 (debounce_shift k st) \<longleftrightarrow> \<not> k"
  by (simp add: low_run_def bit_debounce_shift)

lemma low_run_shift_Suc:
  assumes "j < 10"
  shows "low_run (Suc j) (debounce_shift k st) \<longleftrightarrow> k \<and> low_run j st"
proof
  assume h: "low_run (Suc j) (debounce_shift k st)"
  have "k" using h assms by (auto simp add: low_run_def bit_debounce_shift)
  moreover have "bit st j" using h assms by (auto simp add: low_run_def bit_debounce_shift)
  moreover have "\<not> bit st n" if "n < j" for n
  proof -
    from h have "\<not> bit (debounce_shift k st) (Suc n)" using that by (simp add: low_run_def)
    then show ?thesis using that assms by (simp add: bit_debounce_shift)
  qed
  ultimately show "k \<and> low_run j st" by (simp add: low_run_def)
next
  assume h: "k \<and> low_run j st"
  have "bit (debounce_shift k st) (Suc j)" using h assms by (simp add: low_run_def bit_debounce_shift)
  moreover have "\<not> bit (debounce_shift k st) n" if "n < Suc j" for n
  proof (cases n)
    case 0 then show ?thesis using h by (simp add: bit_debounce_shift)
  next
    case (Suc m) then show ?thesis using h that assms by (simp add: bit_debounce_shift low_run_def)
  qed
  ultimately show "low_run (Suc j) (debounce_shift k st)" by (simp add: low_run_def)
qed

lemma fc00_low_run: "debounce_shift k st = 0xfc00 \<longleftrightarrow> low_run 10 (debounce_shift k st)"
proof -
  let ?w = "debounce_shift k st"
  have "?w = 0xfc00 \<longleftrightarrow> (\<forall>n<16. bit ?w n = bit (0xfc00::uint16) n)"
    by (simp only: bit_eq_iff[of ?w] possible_bit_word len_bit0 len_num1) simp
  also have "\<dots> \<longleftrightarrow> (\<forall>n<16. bit ?w n = (10 \<le> n))"
    unfolding bit_fc00 by auto
  also have "\<dots> \<longleftrightarrow> low_run 10 ?w"
  proof
    assume h: "\<forall>n<16. bit ?w n = (10 \<le> n)"
    show "low_run 10 ?w" unfolding low_run_def using h by auto
  next
    assume r: "low_run 10 ?w"
    show "\<forall>n<16. bit ?w n = (10 \<le> n)"
    proof (intro allI impI)
      fix n :: nat assume n: "n < 16"
      consider "n < 10" | "n = 10" | "11 \<le> n" by arith
      then show "bit ?w n = (10 \<le> n)"
      proof cases
        case 1 then show ?thesis using r by (simp add: low_run_def)
      next
        case 2 then show ?thesis using r by (simp add: low_run_def)
      next
        case 3 then show ?thesis using n by (simp add: bit_debounce_shift)
      qed
    qed
  qed
  finally show ?thesis .
qed

lemma low_run_zero: "\<not> low_run j 0"
  by (simp add: low_run_def)

lemma low_run_fold:
  "j \<le> 10 \<Longrightarrow>
   low_run j (fold debounce_shift ks st) \<longleftrightarrow>
     (if j < length ks then take (Suc j) (rev ks) = replicate j True @ [False]
      else (\<forall>k\<in>set ks. k) \<and> low_run (j - length ks) st)"
proof (induction ks arbitrary: j rule: rev_induct)
  case Nil
  then show ?case by simp
next
  case (snoc k ks)
  show ?case
  proof (cases j)
    case 0
    then show ?thesis by (simp add: low_run_shift_0)
  next
    case (Suc i)
    with snoc.prems have i: "i < 10" "i \<le> 10" by simp_all
    show ?thesis
      unfolding Suc using i(1) snoc.IH[OF i(2)]
      by (auto simp add: low_run_shift_Suc)
  qed
qed


lemma read_key_s2_shift:
  "read_key_s2 k s =
     (debounce_shift k (key_s2_state s) = 0xfc00,
      s\<lparr>key_s2_state := debounce_shift k (key_s2_state s)\<rparr>)"
  unfolding read_key_s2_def debounce_shift_def Let_def ..

lemma read_key_s3_shift:
  "read_key_s3 k s =
     (debounce_shift k (key_s3_state s) = 0xfc00,
      s\<lparr>key_s3_state := debounce_shift k (key_s3_state s)\<rparr>)"
  unfolding read_key_s3_def debounce_shift_def Let_def ..

lemma read_keys_s2_fold:
  "key_s2_state (snd (read_keys_s2 ks s)) = fold debounce_shift ks (key_s2_state s)"
  "ks \<noteq> [] \<Longrightarrow> fst (read_keys_s2 ks s) = (fold debounce_shift ks (key_s2_state s) = 0xfc00)"
  by (induction ks s rule: read_keys_s2.induct) (simp_all add: read_key_s2_shift)

lemma read_keys_s3_fold:
  "key_s3_state (snd (read_keys_s3 ks s)) = fold debounce_shift ks (key_s3_state s)"
  "ks \<noteq> [] \<Longrightarrow> fst (read_keys_s3 ks s) = (fold debounce_shift ks (key_s3_state s) = 0xfc00)"
  by (induction ks s rule: read_keys_s3.induct) (simp_all add: read_key_s3_shift)

lemma debounce_fires:
  assumes "ks \<noteq> []"
  shows "(fold debounce_shift ks st = 0xfc00) \<longleftrightarrow>
     (if 10 < length ks then take 11 (rev ks) = replicate 10 True @ [False]
      else (\<forall>k\<in>set ks. k) \<and> low_run (10 - length ks) st)"
proof -
  from assms obtain ks' k where ks: "ks = ks' @ [k]"
    by (cases ks rule: rev_cases) auto
  have "(fold debounce_shift ks st = 0xfc00) = low_run 10 (fold debounce_shift ks st)"
    unfolding ks by (simp add: fc00_low_run)
  also have "\<dots> = (if 10 < length ks then take (Suc 10) (rev ks) = replicate 10 True @ [False]
      else (\<forall>k\<in>set ks. k) \<and> low_run (10 - length ks) st)"
    by (rule low_run_fold) simp
  finally show ?thesis by simp
qed

lemma debounce_long:
  "11 \<le> length ks \<Longrightarrow>
   (fold debounce_shift ks st = 0xfc00) \<longleftrightarrow> take 11 (rev ks) = replicate 10 True @ [False]"
  using debounce_fires[of ks st] by (cases ks) auto

lemma debounce_short:
  "ks \<noteq> [] \<Longrightarrow> length ks < 11 \<Longrightarrow> fold debounce_shift ks 0 \<noteq> 0xfc00"
  using debounce_fires[of ks 0] by (simp add: low_run_zero)

lemma debounce_not_twice: "debounce_shift k' 0xfc00 \<noteq> 0xfc00"
proof
  assume "debounce_shift k' 0xfc00 = 0xfc00"
  then have "low_run 10 (debounce_shift k' 0xfc00)" by (simp only: fc00_low_run)
  then have "low_run 9 0xfc00" using low_run_shift_Suc[of 9 k' "0xfc00"] by simp
  then have "bit (0xfc00::uint16) 9" by (simp only: low_run_def)
  then show False by (simp only: bit_fc00) simp
qed

text \<open>
  Claim C10.  Each key reader returns true exactly when its shift register has become
  0xfc00.  Over a sequence of calls this needs ten consecutive calls that saw the key
  input set, straight after a call that saw it clear: with eleven or more calls the last
  one returns true exactly when the last eleven inputs are one clear and ten set, and
  from the cleared register of a reset node fewer than eleven calls never return true.
  A call that returns true is never followed by another one that does, whatever the
  inputs.
\<close>

theorem key_readers_single_shot:
  "(fst (read_key_s2 k s) \<longleftrightarrow> key_s2_state (snd (read_key_s2 k s)) = 0xfc00)
   \<and> (11 \<le> length ks \<longrightarrow>
        (fst (read_keys_s2 ks s) \<longleftrightarrow> take 11 (rev ks) = replicate 10 True @ [False]))
   \<and> (key_s2_state s = 0 \<and> length ks < 11 \<longrightarrow> \<not> fst (read_keys_s2 ks s))
   \<and> (fst (read_key_s2 k s) \<longrightarrow> \<not> fst (read_key_s2 k' (snd (read_key_s2 k s))))
   \<and> (fst (read_key_s3 k s) \<longleftrightarrow> key_s3_state (snd (read_key_s3 k s)) = 0xfc00)
   \<and> (11 \<le> length ks \<longrightarrow>
        (fst (read_keys_s3 ks s) \<longleftrightarrow> take 11 (rev ks) = replicate 10 True @ [False]))
   \<and> (key_s3_state s = 0 \<and> length ks < 11 \<longrightarrow> \<not> fst (read_keys_s3 ks s))
   \<and> (fst (read_key_s3 k s) \<longrightarrow> \<not> fst (read_key_s3 k' (snd (read_key_s3 k s))))"
proof -
  have a2: "fst (read_key_s2 k s) \<longleftrightarrow> key_s2_state (snd (read_key_s2 k s)) = 0xfc00"
    by (simp add: read_key_s2_shift)
  have b2: "11 \<le> length ks \<longrightarrow>
        (fst (read_keys_s2 ks s) \<longleftrightarrow> take 11 (rev ks) = replicate 10 True @ [False])"
  proof
    assume l: "11 \<le> length ks"
    then have "ks \<noteq> []" by auto
    then show "fst (read_keys_s2 ks s) \<longleftrightarrow> take 11 (rev ks) = replicate 10 True @ [False]"
      by (simp add: read_keys_s2_fold debounce_long[OF l])
  qed
  have c2: "key_s2_state s = 0 \<and> length ks < 11 \<longrightarrow> \<not> fst (read_keys_s2 ks s)"
  proof (cases "ks = []")
    case True then show ?thesis by simp
  next
    case False then show ?thesis by (auto simp add: read_keys_s2_fold debounce_short)
  qed
  have d2: "fst (read_key_s2 k s) \<longrightarrow> \<not> fst (read_key_s2 k' (snd (read_key_s2 k s)))"
    by (auto simp add: read_key_s2_shift debounce_not_twice)
  have a3: "fst (read_key_s3 k s) \<longleftrightarrow> key_s3_state (snd (read_key_s3 k s)) = 0xfc00"
    by (simp add: read_key_s3_shift)
  have b3: "11 \<le> length ks \<longrightarrow>
        (fst (read_keys_s3 ks s) \<longleftrightarrow> take 11 (rev ks) = replicate 10 True @ [False])"
  proof
    assume l: "11 \<le> length ks"
    then have "ks \<noteq> []" by auto
    then show "fst (read_keys_s3 ks s) \<longleftrightarrow> take 11 (rev ks) = replicate 10 True @ [False]"
      by (simp add: read_keys_s3_fold debounce_long[OF l])
  qed
  have c3: "key_s3_state s = 0 \<and> length ks < 11 \<longrightarrow> \<not> fst (read_keys_s3 ks s)"
  proof (cases "ks = []")
    case True then show ?thesis by simp
  next
    case False then show ?thesis by (auto simp add: read_keys_s3_fold debounce_short)
  qed
  have d3: "fst (read_key_s3 k s) \<longrightarrow> \<not> fst (read_key_s3 k' (snd (read_key_s3 k s)))"
    by (auto simp add: read_key_s3_shift debounce_not_twice)
  from a2 b2 c2 d2 a3 b3 c3 d3 show ?thesis by blast
qed

theorem key_readers_single_shot_witness:
  "11 \<le> length (False # replicate 10 True)
   \<and> fst (read_keys_s2 (False # replicate 10 True) node_reset)
   \<and> fst (read_keys_s3 (False # replicate 10 True) node_reset)
   \<and> key_s2_state node_reset = 0 \<and> key_s3_state node_reset = 0
   \<and> length (replicate 10 True) < 11
   \<and> \<not> fst (read_keys_s2 (replicate 10 True) node_reset)
   \<and> \<not> fst (read_keys_s3 (replicate 10 True) node_reset)
   \<and> fst (read_key_s2 True (node_reset\<lparr>key_s2_state := 0xfe00\<rparr>))
   \<and> \<not> fst (read_key_s2 True (snd (read_key_s2 True (node_reset\<lparr>key_s2_state := 0xfe00\<rparr>))))
   \<and> fst (read_key_s3 True (node_reset\<lparr>key_s3_state := 0xfe00\<rparr>))
   \<and> \<not> fst (read_key_s3 True (snd (read_key_s3 True (node_reset\<lparr>key_s3_state := 0xfe00\<rparr>))))"
proof -
  have r: "take 11 (rev (False # replicate 10 True)) = replicate 10 True @ [False]"
    by (simp add: numeral_eq_Suc)
  have z: "key_s2_state node_reset = 0" "key_s3_state node_reset = 0"
    by (simp_all add: node_reset_def)
  have f2: "fst (read_key_s2 True (node_reset\<lparr>key_s2_state := 0xfe00\<rparr>))"
    by (simp add: read_key_s2_def)
  have f3: "fst (read_key_s3 True (node_reset\<lparr>key_s3_state := 0xfe00\<rparr>))"
    by (simp add: read_key_s3_def)
  show ?thesis
    using r z f2 f3
      key_readers_single_shot[of True "node_reset\<lparr>key_s2_state := 0xfe00\<rparr>"
        "False # replicate 10 True" True]
      key_readers_single_shot[of True "node_reset\<lparr>key_s3_state := 0xfe00\<rparr>"
        "replicate 10 True" True]
      key_readers_single_shot[of True node_reset "False # replicate 10 True" True]
      key_readers_single_shot[of True node_reset "replicate 10 True" True]
    by simp
qed

subsection \<open>Toggle keys\<close>

text \<open>
  Claim C5.  \<^verbatim>\<open>trigger_action (action_up_key)\<close> does what \<^verbatim>\<open>trigger_action (action_none)\<close>
  does when the last action committed was up (the motor enters the off sequence at
  \<open>motor_state_pre_off\<close>, and the last action becomes none), and what
  \<^verbatim>\<open>trigger_action (action_up)\<close> does otherwise (after a down run, or from off);
  \<^verbatim>\<open>action_down_key\<close> likewise with respect to down.
\<close>

theorem toggle_trigger:
  "(last_action s = action_up \<longrightarrow>
      trigger_action action_up_key s = trigger_action action_none s
      \<and> motor_state (trigger_action action_up_key s) = motor_state_pre_off
      \<and> last_action (trigger_action action_up_key s) = action_none)
   \<and> (last_action s \<noteq> action_up \<longrightarrow>
      trigger_action action_up_key s = trigger_action action_up s
      \<and> motor_state (trigger_action action_up_key s) = motor_state_pre_up
      \<and> last_action (trigger_action action_up_key s) = action_up)
   \<and> (last_action s = action_down \<longrightarrow>
      trigger_action action_down_key s = trigger_action action_none s
      \<and> motor_state (trigger_action action_down_key s) = motor_state_pre_off
      \<and> last_action (trigger_action action_down_key s) = action_none)
   \<and> (last_action s \<noteq> action_down \<longrightarrow>
      trigger_action action_down_key s = trigger_action action_down s
      \<and> motor_state (trigger_action action_down_key s) = motor_state_pre_down
      \<and> last_action (trigger_action action_down_key s) = action_down)"
  by simp

theorem toggle_trigger_witness:
  "last_action node_reset \<noteq> action_up
   \<and> motor_state (trigger_action action_up_key node_reset) = motor_state_pre_up
   \<and> last_action (trigger_action action_up_key node_reset) = action_up
   \<and> motor_state (trigger_action action_up_key (trigger_action action_up_key node_reset))
       = motor_state_pre_off
   \<and> last_action (trigger_action action_down node_reset) = action_down
   \<and> motor_state (trigger_action action_down_key (trigger_action action_down node_reset))
       = motor_state_pre_off
   \<and> last_action (trigger_action action_down node_reset) \<noteq> action_up
   \<and> motor_state (trigger_action action_up_key (trigger_action action_down node_reset))
       = motor_state_pre_up
   \<and> last_action node_reset \<noteq> action_down
   \<and> motor_state (trigger_action action_down_key node_reset) = motor_state_pre_down"
proof -
  have n: "last_action node_reset = action_none"
    by (simp add: node_reset_def)
  have u: "last_action (trigger_action action_up_key node_reset) = action_up"
    using toggle_trigger[of node_reset] n by simp
  have d: "last_action (trigger_action action_down node_reset) = action_down"
    by simp
  show ?thesis
    using n u d toggle_trigger[of node_reset]
      toggle_trigger[of "trigger_action action_up_key node_reset"]
      toggle_trigger[of "trigger_action action_down node_reset"]
    by simp
qed

subsection \<open>The motor interlock\<close>

lemma MILLISEC_values: "MILLISEC 200 = 20" "MILLISEC 25000 = 2500" "MILLISEC 900 = 90"
  by (simp_all add: MILLISEC_def)

lemma motor_action_unfold:
  "motor_action s =
     (if fst (motor_step s) = 0 \<and> motor_state (snd (motor_step s)) \<noteq> motor_state_off
      then motor_action (snd (motor_step s)) else motor_step s)"
  by (subst motor_action.simps) (simp add: split_beta Let_def)

lemma motor_action_one:
  "motor_state s \<noteq> motor_state_up_ready \<Longrightarrow> motor_state s \<noteq> motor_state_down_ready \<Longrightarrow>
   motor_action s = motor_step s"
  using motor_step_continues[of s] by (subst motor_action_unfold) auto

lemma motor_action_two:
  "motor_state s = motor_state_up_ready \<or> motor_state s = motor_state_down_ready \<Longrightarrow>
   motor_action s = motor_step (snd (motor_step s))"
proof -
  assume a: "motor_state s = motor_state_up_ready \<or> motor_state s = motor_state_down_ready"
  then have f: "fst (motor_step s) = 0"
    and m: "motor_state (snd (motor_step s)) = motor_state_pre_off"
    by (auto simp add: motor_step_def)
  have "motor_action s = motor_action (snd (motor_step s))"
    by (subst motor_action_unfold) (simp add: f m)
  also have "\<dots> = motor_step (snd (motor_step s))"
    by (rule motor_action_one) (simp_all add: m)
  finally show ?thesis .
qed

lemma motor_reach_action: "motor_reach s0 s \<Longrightarrow> motor_reach s0 (snd (motor_action s))"
proof (cases "motor_state s = motor_state_up_ready \<or> motor_state s = motor_state_down_ready")
  case True
  assume "motor_reach s0 s"
  then show ?thesis
    unfolding motor_action_two[OF True] by (intro reach_step)
next
  case False
  assume "motor_reach s0 s"
  then show ?thesis
    using False by (simp add: motor_action_one reach_step)
qed

lemma motor_reach_calls: "motor_reach s0 s \<Longrightarrow> motor_reach s0 (motor_calls cs s)"
proof (induction cs arbitrary: s)
  case Nil
  then show ?case by simp
next
  case (Cons c cs)
  then show ?case
    by (cases c) (simp_all add: reach_trigger motor_reach_action)
qed

lemma trigger_action_state:
  "motor_state (trigger_action a s) = motor_state_pre_off
   \<or> motor_state (trigger_action a s) = motor_state_pre_up
   \<or> motor_state (trigger_action a s) = motor_state_pre_down"
  by (cases a) simp_all

lemma trigger_action_outputs:
  "MOTOR_on (trigger_action a s) = MOTOR_on s" "MOTOR_down (trigger_action a s) = MOTOR_down s"
  by (cases a; simp)+

lemma motor_off_invariant:
  assumes "motor_state s0 = motor_state_off" and "\<not> MOTOR_on s0"
  shows "motor_reach s0 s \<Longrightarrow> motor_is_off s \<Longrightarrow> \<not> MOTOR_on s"
proof (induction rule: motor_reach.induct)
  case reach_start
  then show ?case using assms by simp
next
  case (reach_trigger s a)
  then show ?case
    using trigger_action_state[of a s] by (auto simp add: motor_is_off_def)
next
  case (reach_step s)
  then show ?case
    by (cases "motor_state s") (auto simp add: motor_step_def motor_is_off_def)
qed

lemma motor_step_direction:
  "MOTOR_down (snd (motor_step s)) \<noteq> MOTOR_down s \<Longrightarrow>
   (motor_state s = motor_state_pre_off2 \<or> motor_state s = motor_state_pre_up2
    \<or> motor_state s = motor_state_pre_down2) \<and> MOTOR_on (snd (motor_step s)) = MOTOR_on s"
  by (cases "motor_state s") (auto simp add: motor_step_def)

lemma motor_calls_snoc:
  "motor_calls (cs @ [c]) s =
     (case c of Trigger a \<Rightarrow> trigger_action a (motor_calls cs s)
              | Motor \<Rightarrow> snd (motor_action (motor_calls cs s)))"
  by (induction cs s rule: motor_calls.induct) (simp_all split: motor_call.splits)

lemma motor_action_state:
  "motor_state (snd (motor_action s)) =
     (case motor_state s of
        motor_state_off \<Rightarrow> motor_state_off
      | motor_state_pre_off \<Rightarrow> motor_state_pre_off2
      | motor_state_pre_off2 \<Rightarrow> motor_state_pre_off3
      | motor_state_pre_off3 \<Rightarrow> motor_state_off
      | motor_state_pre_up \<Rightarrow> motor_state_pre_up2
      | motor_state_pre_up2 \<Rightarrow> motor_state_up
      | motor_state_up \<Rightarrow> motor_state_up_ready
      | motor_state_up_ready \<Rightarrow> motor_state_pre_off2
      | motor_state_pre_down \<Rightarrow> motor_state_pre_down2
      | motor_state_pre_down2 \<Rightarrow> motor_state_down
      | motor_state_down \<Rightarrow> motor_state_down_ready
      | motor_state_down_ready \<Rightarrow> motor_state_pre_off2)"
  by (cases "motor_state s")
    (simp_all add: motor_action_one motor_action_two motor_step_def MILLISEC_values)

text \<open>The call before a given state of the machine.\<close>

lemma motor_calls_before:
  assumes "motor_state s0 = motor_state_off"
    and "motor_state (motor_calls cs s0) = q"
    and "q = motor_state_pre_up2 \<and> p = motor_state_pre_up
         \<or> q = motor_state_up \<and> p = motor_state_pre_up2
         \<or> q = motor_state_up_ready \<and> p = motor_state_up
         \<or> q = motor_state_pre_down2 \<and> p = motor_state_pre_down
         \<or> q = motor_state_down \<and> p = motor_state_pre_down2
         \<or> q = motor_state_down_ready \<and> p = motor_state_down"
  shows "\<exists>cs'. cs = cs' @ [Motor] \<and> motor_state (motor_calls cs' s0) = p"
proof (cases cs rule: rev_cases)
  case Nil
  then show ?thesis using assms by auto
next
  case (snoc cs' c)
  show ?thesis
  proof (cases c)
    case (Trigger a)
    then show ?thesis
      using assms(2,3) snoc trigger_action_state[of a "motor_calls cs' s0"]
      by (auto simp add: motor_calls_snoc)
  next
    case Motor
    have "motor_state (snd (motor_action (motor_calls cs' s0))) = q"
      using assms(2) snoc Motor by (simp add: motor_calls_snoc)
    then have "motor_state (motor_calls cs' s0) = p"
      using assms(3) unfolding motor_action_state
      by (cases "motor_state (motor_calls cs' s0)") auto
    then show ?thesis using snoc Motor by simp
  qed
qed


lemma run_up_pre_up: "motor_state s = motor_state_pre_up \<Longrightarrow> run_up False s"
  by (simp add: run_up_def motor_action_one motor_step_def)

lemma run_up_pre_down: "motor_state s = motor_state_pre_down \<Longrightarrow> run_up True s"
  by (simp add: run_up_def motor_action_one motor_step_def)

lemma motor_calls_run_up:
  assumes "motor_state s0 = motor_state_off"
    and "motor_state (motor_calls cs s0) = r"
    and "r = motor_state_up_ready \<and> p = motor_state_pre_up
         \<or> r = motor_state_down_ready \<and> p = motor_state_pre_down"
  shows "\<exists>cs'. cs = cs' @ [Motor, Motor, Motor] \<and> motor_state (motor_calls cs' s0) = p"
proof -
  from assms(3) obtain q2 q1 where
    q: "r = motor_state_up_ready \<and> q2 = motor_state_up
         \<or> r = motor_state_down_ready \<and> q2 = motor_state_down"
       "q2 = motor_state_up \<and> q1 = motor_state_pre_up2
         \<or> q2 = motor_state_down \<and> q1 = motor_state_pre_down2"
       "q1 = motor_state_pre_up2 \<and> p = motor_state_pre_up
         \<or> q1 = motor_state_pre_down2 \<and> p = motor_state_pre_down"
    by auto
  from motor_calls_before[OF assms(1,2), of q2] q(1)
  obtain c3 where c3: "cs = c3 @ [Motor]" "motor_state (motor_calls c3 s0) = q2"
    by auto
  from motor_calls_before[OF assms(1) c3(2), of q1] q(2)
  obtain c2 where c2: "c3 = c2 @ [Motor]" "motor_state (motor_calls c2 s0) = q1"
    by auto
  from motor_calls_before[OF assms(1) c2(2), of p] q(3)
  obtain c1 where c1: "c2 = c1 @ [Motor]" "motor_state (motor_calls c1 s0) = p"
    by auto
  from c3(1) c2(1) c1 show ?thesis by simp
qed

text \<open>
  Claim C1.  Start from a node whose machine is off with the motor output off, as after
  reset.  Every sequence of \<^verbatim>\<open>trigger_action\<close> and \<^verbatim>\<open>motor_action\<close> calls ends in a
  reachable node; in a reachable node (also one between two passes of the loop of one
  \<^verbatim>\<open>motor_action\<close> call) a pass through the switch that changes the direction relay
  finds the motor output off and leaves it off.  Whenever a sequence of calls ends with
  the machine running up (\<open>motor_state_up_ready\<close>, entered by the pass that switches the
  motor on) its last three calls are \<^verbatim>\<open>motor_action\<close> calls starting at
  \<open>motor_state_pre_up\<close> that form a run-up: motor off, 200 ms, direction relay, 200 ms,
  motor on.  The same holds for down.
\<close>

theorem motor_interlock:
  assumes "motor_state s0 = motor_state_off" and "\<not> MOTOR_on s0"
  shows "motor_reach s0 (motor_calls cs s0)
    \<and> (motor_reach s0 s \<longrightarrow> MOTOR_down (snd (motor_step s)) \<noteq> MOTOR_down s \<longrightarrow>
          \<not> MOTOR_on s \<and> \<not> MOTOR_on (snd (motor_step s)))
    \<and> (motor_state (motor_calls cs s0) = motor_state_up_ready \<longrightarrow>
          (\<exists>cs'. cs = cs' @ [Motor, Motor, Motor]
               \<and> motor_state (motor_calls cs' s0) = motor_state_pre_up
               \<and> run_up False (motor_calls cs' s0)))
    \<and> (motor_state (motor_calls cs s0) = motor_state_down_ready \<longrightarrow>
          (\<exists>cs'. cs = cs' @ [Motor, Motor, Motor]
               \<and> motor_state (motor_calls cs' s0) = motor_state_pre_down
               \<and> run_up True (motor_calls cs' s0)))"
proof (intro conjI impI)
  show "motor_reach s0 (motor_calls cs s0)"
    by (rule motor_reach_calls) (rule reach_start)
next
  assume r: "motor_reach s0 s" and d: "MOTOR_down (snd (motor_step s)) \<noteq> MOTOR_down s"
  from motor_step_direction[OF d] have "motor_is_off s"
    and e: "MOTOR_on (snd (motor_step s)) = MOTOR_on s"
    by (auto simp add: motor_is_off_def)
  with motor_off_invariant[OF assms r] show "\<not> MOTOR_on s" by simp
  with e show "\<not> MOTOR_on (snd (motor_step s))" by simp
next
  assume "motor_state (motor_calls cs s0) = motor_state_up_ready"
  from motor_calls_run_up[OF assms(1) this, of motor_state_pre_up]
  show "\<exists>cs'. cs = cs' @ [Motor, Motor, Motor]
               \<and> motor_state (motor_calls cs' s0) = motor_state_pre_up
               \<and> run_up False (motor_calls cs' s0)"
    by (auto simp add: run_up_pre_up)
next
  assume "motor_state (motor_calls cs s0) = motor_state_down_ready"
  from motor_calls_run_up[OF assms(1) this, of motor_state_pre_down]
  show "\<exists>cs'. cs = cs' @ [Motor, Motor, Motor]
               \<and> motor_state (motor_calls cs' s0) = motor_state_pre_down
               \<and> run_up True (motor_calls cs' s0)"
    by (auto simp add: run_up_pre_down)
qed

lemma motor_calls_example:
  "motor_calls [Trigger action_down, Motor] node_reset =
     node_reset\<lparr>motor_state := motor_state_pre_down2, last_action := action_down,
       motor_action_delay := 1, MOTOR_on := False\<rparr>"
  "motor_state (motor_calls [Trigger action_down, Motor, Motor, Motor] node_reset) =
     motor_state_down_ready"
  by (simp_all add: node_reset_def motor_action_one motor_step_def)

theorem motor_interlock_witness:
  "motor_state node_reset = motor_state_off \<and> \<not> MOTOR_on node_reset
   \<and> motor_reach node_reset (motor_calls [Trigger action_down, Motor] node_reset)
   \<and> MOTOR_down (snd (motor_step (motor_calls [Trigger action_down, Motor] node_reset)))
       \<noteq> MOTOR_down (motor_calls [Trigger action_down, Motor] node_reset)
   \<and> \<not> MOTOR_on (motor_calls [Trigger action_down, Motor] node_reset)
   \<and> \<not> MOTOR_on (snd (motor_step (motor_calls [Trigger action_down, Motor] node_reset)))
   \<and> motor_state (motor_calls [Trigger action_down, Motor, Motor, Motor] node_reset)
       = motor_state_down_ready
   \<and> (\<exists>cs'. [Trigger action_down, Motor, Motor, Motor] = cs' @ [Motor, Motor, Motor]
          \<and> motor_state (motor_calls cs' node_reset) = motor_state_pre_down
          \<and> run_up True (motor_calls cs' node_reset))"
proof -
  have h: "motor_state node_reset = motor_state_off" "\<not> MOTOR_on node_reset"
    by (simp_all add: node_reset_def)
  have d: "MOTOR_down (snd (motor_step (motor_calls [Trigger action_down, Motor] node_reset)))
       \<noteq> MOTOR_down (motor_calls [Trigger action_down, Motor] node_reset)"
    unfolding motor_calls_example by (simp add: motor_step_def node_reset_def)
  note a = motor_interlock[OF h, of "[Trigger action_down, Motor]"
      "motor_calls [Trigger action_down, Motor] node_reset"]
  note b = motor_interlock[OF h, of "[Trigger action_down, Motor, Motor, Motor]" node_reset]
  from a have a1: "motor_reach node_reset (motor_calls [Trigger action_down, Motor] node_reset)"
    by (rule conjunct1)
  from a a1 d have a2: "\<not> MOTOR_on (motor_calls [Trigger action_down, Motor] node_reset)
     \<and> \<not> MOTOR_on (snd (motor_step (motor_calls [Trigger action_down, Motor] node_reset)))"
    by blast
  from b motor_calls_example(2)
  have b1: "\<exists>cs'. [Trigger action_down, Motor, Motor, Motor] = cs' @ [Motor, Motor, Motor]
          \<and> motor_state (motor_calls cs' node_reset) = motor_state_pre_down
          \<and> run_up True (motor_calls cs' node_reset)"
    by blast
  from h a1 d a2 motor_calls_example(2) b1 show ?thesis by blast
qed

subsection \<open>Buffers\<close>

lemma length_memset [simp]: "length (memset m p c n) = length m"
  by (induction m p c n rule: memset.induct) simp_all

lemma nth_memset_below: "i < p \<Longrightarrow> memset m p c n ! i = m ! i"
  by (induction m p c n rule: memset.induct) simp_all

lemma length_memcpy [simp]: "length (memcpy m p bs) = length m"
  by (induction m p bs rule: memcpy.induct) simp_all

lemma nth_memcpy_below: "i < p \<Longrightarrow> memcpy m p bs ! i = m ! i"
  by (induction m p bs rule: memcpy.induct) simp_all

lemma reserved_bytes:
  "(\<exists>i\<in>set [9..<16]. (msg::byte list) ! i \<noteq> 0) \<longleftrightarrow>
     (msg ! 9 \<noteq> 0 \<or> msg ! 10 \<noteq> 0 \<or> msg ! 11 \<noteq> 0 \<or> msg ! 12 \<noteq> 0
      \<or> msg ! 13 \<noteq> 0 \<or> msg ! 14 \<noteq> 0 \<or> msg ! 15 \<noteq> 0)"
  by (simp add:)

lemma csma_send_message_last:
  "last (sent (csma_send_message r s)) = r"
  "sent (csma_send_message r s) = sent s @ [r]"
  by (simp_all add: csma_send_message_def)

subsection \<open>The drive command\<close>

lemma process_shutter_cmd_drive:
  assumes "msg ! 6 = P_H61_SHUTTER_DRIVE K" and "P_H61_SHUTTER_QUERY K \<noteq> P_H61_SHUTTER_DRIVE K"
  shows "process_shutter_cmd K msg s =
     (let err = (if drive_malformed msg then 1 else 0);
          s' = (if drive_malformed msg then s
                else if msg ! 8 AND 0xc0 = 0xc0
                then trigger_action action_up (send_dbgmsg K ''bus-act up'' s)
                else trigger_action action_down (send_dbgmsg K ''bus-act dn'' s))
      in csma_send_message
           (memset (msg[1 := msg ! 3, 2 := msg ! 4, 3 := nodeid_hi (config s'),
                        4 := nodeid_lo (config s'), 5 := msg ! 5 OR P_BUSCTL_RESPMASK K,
                        7 := err, 8 := shutter_state s']) 9 0 7) s')"
proof -
  let ?bad = "msg ! 7 > 1
                  \<or> msg ! 9 \<noteq> 0 \<or> msg ! 10 \<noteq> 0 \<or> msg ! 11 \<noteq> 0 \<or> msg ! 12 \<noteq> 0
                  \<or> msg ! 13 \<noteq> 0 \<or> msg ! 14 \<noteq> 0 \<or> msg ! 15 \<noteq> 0
                  \<or> msg ! 8 AND 0x10 \<noteq> 0
                  \<or> msg ! 8 AND 0x20 \<noteq> 0"
  have q: "P_H61_SHUTTER_DRIVE K \<noteq> P_H61_SHUTTER_QUERY K" using assms(2) by simp
  have m: "drive_malformed msg \<longleftrightarrow> ?bad \<or> (msg ! 8 AND 0xc0 \<noteq> 0xc0 \<and> msg ! 8 AND 0xc0 \<noteq> 0x80)"
    unfolding drive_malformed_def reserved_bytes by blast
  consider (bad) ?bad | (up) "\<not> ?bad" "msg ! 8 AND 0xc0 = 0xc0"
    | (down) "\<not> ?bad" "msg ! 8 AND 0xc0 \<noteq> 0xc0" "msg ! 8 AND 0xc0 = 0x80"
    | (neither) "\<not> ?bad" "msg ! 8 AND 0xc0 \<noteq> 0xc0" "msg ! 8 AND 0xc0 \<noteq> 0x80"
    by blast
  then show ?thesis
  proof cases
    case bad
    then have "drive_malformed msg" using m by blast
    then show ?thesis
      unfolding process_shutter_cmd_def using bad
      by (simp add: q assms(1) Let_def del: trigger_action.simps)
  next
    case up
    then have "\<not> drive_malformed msg" using m by simp
    then show ?thesis
      unfolding process_shutter_cmd_def using up
      by (simp add: q assms(1) Let_def del: trigger_action.simps)
  next
    case down
    then have "\<not> drive_malformed msg" using m by simp
    then show ?thesis
      unfolding process_shutter_cmd_def using down
      by (simp add: q assms(1) Let_def del: trigger_action.simps)
  next
    case neither
    then have "drive_malformed msg" using m by simp
    then show ?thesis
      unfolding process_shutter_cmd_def using neither
      by (simp add: q assms(1) Let_def del: trigger_action.simps)
  qed
qed


text \<open>
  Claim C7.  For a drive command (sub-command \<^verbatim>\<open>P_H61_SHUTTER_DRIVE\<close>, a case label
  different from \<^verbatim>\<open>P_H61_SHUTTER_QUERY\<close>): if it is malformed, the handler leaves the
  node as it was but for one frame sent, the response, whose byte 7 is 1, so no motor
  action is triggered; otherwise it triggers up (action bits 0xc0) or down (0x80) and
  then sends the response with byte 7 equal to 0.
\<close>

theorem shutter_drive_validation:
  assumes "length msg = 16" and "msg ! 6 = P_H61_SHUTTER_DRIVE K"
    and "P_H61_SHUTTER_QUERY K \<noteq> P_H61_SHUTTER_DRIVE K"
  shows "(drive_malformed msg \<longrightarrow>
            process_shutter_cmd K msg s =
              csma_send_message (last (sent (process_shutter_cmd K msg s))) s
          \<and> last (sent (process_shutter_cmd K msg s)) ! 7 = 1)
       \<and> (\<not> drive_malformed msg \<and> msg ! 8 AND 0xc0 = 0xc0 \<longrightarrow>
            process_shutter_cmd K msg s =
              csma_send_message (last (sent (process_shutter_cmd K msg s)))
                (trigger_action action_up (send_dbgmsg K ''bus-act up'' s))
          \<and> last (sent (process_shutter_cmd K msg s)) ! 7 = 0)
       \<and> (\<not> drive_malformed msg \<and> msg ! 8 AND 0xc0 = 0x80 \<longrightarrow>
            process_shutter_cmd K msg s =
              csma_send_message (last (sent (process_shutter_cmd K msg s)))
                (trigger_action action_down (send_dbgmsg K ''bus-act dn'' s))
          \<and> last (sent (process_shutter_cmd K msg s)) ! 7 = 0)"
proof -
  note d = process_shutter_cmd_drive[OF assms(2,3), of s]
  have ne: "(0x80::byte) \<noteq> 0xc0" by simp
  have a: "drive_malformed msg \<longrightarrow>
            process_shutter_cmd K msg s =
              csma_send_message (last (sent (process_shutter_cmd K msg s))) s
          \<and> last (sent (process_shutter_cmd K msg s)) ! 7 = 1"
    unfolding d using assms(1)
    by (simp add: Let_def csma_send_message_last nth_memset_below del: trigger_action.simps)
  have b: "\<not> drive_malformed msg \<and> msg ! 8 AND 0xc0 = 0xc0 \<longrightarrow>
            process_shutter_cmd K msg s =
              csma_send_message (last (sent (process_shutter_cmd K msg s)))
                (trigger_action action_up (send_dbgmsg K ''bus-act up'' s))
          \<and> last (sent (process_shutter_cmd K msg s)) ! 7 = 0"
    unfolding d using assms(1)
    by (simp add: Let_def csma_send_message_last nth_memset_below del: trigger_action.simps)
  have c: "\<not> drive_malformed msg \<and> msg ! 8 AND 0xc0 = 0x80 \<longrightarrow>
            process_shutter_cmd K msg s =
              csma_send_message (last (sent (process_shutter_cmd K msg s)))
                (trigger_action action_down (send_dbgmsg K ''bus-act dn'' s))
          \<and> last (sent (process_shutter_cmd K msg s)) ! 7 = 0"
    unfolding d using assms(1) ne
    by (simp add: Let_def csma_send_message_last nth_memset_below del: trigger_action.simps)
  from a b c show ?thesis by blast
qed

theorem shutter_drive_validation_witness:
  "length drive_up_msg = 16
   \<and> drive_up_msg ! 6 = P_H61_SHUTTER_DRIVE protocol_sample
   \<and> P_H61_SHUTTER_QUERY protocol_sample \<noteq> P_H61_SHUTTER_DRIVE protocol_sample
   \<and> \<not> drive_malformed drive_up_msg \<and> drive_up_msg ! 8 AND 0xc0 = 0xc0
   \<and> last (sent (process_shutter_cmd protocol_sample drive_up_msg node_reset)) ! 7 = 0
   \<and> motor_state (process_shutter_cmd protocol_sample drive_up_msg node_reset)
       = motor_state_pre_up
   \<and> length (drive_up_msg[7 := 2]) = 16
   \<and> drive_malformed (drive_up_msg[7 := 2])
   \<and> last (sent (process_shutter_cmd protocol_sample (drive_up_msg[7 := 2]) node_reset)) ! 7 = 1
   \<and> motor_state (process_shutter_cmd protocol_sample (drive_up_msg[7 := 2]) node_reset)
       = motor_state_off"
proof -
  have l: "length drive_up_msg = 16" "length (drive_up_msg[7 := 2]) = 16"
    by (simp_all add: drive_up_msg_def)
  have k: "drive_up_msg ! 6 = P_H61_SHUTTER_DRIVE protocol_sample"
    "(drive_up_msg[7 := 2]) ! 6 = P_H61_SHUTTER_DRIVE protocol_sample"
    "P_H61_SHUTTER_QUERY protocol_sample \<noteq> P_H61_SHUTTER_DRIVE protocol_sample"
    by (simp_all add: drive_up_msg_def protocol_sample_def)
  have g: "\<not> drive_malformed drive_up_msg" "drive_up_msg ! 8 AND 0xc0 = 0xc0"
    by (simp_all add: drive_malformed_def drive_up_msg_def)
  have b: "drive_malformed (drive_up_msg[7 := 2])"
    by (simp add: drive_malformed_def drive_up_msg_def)
  note u = shutter_drive_validation[OF l(1) k(1) k(3), of node_reset]
  note v = shutter_drive_validation[OF l(2) k(2) k(3), of node_reset]
  from u g have u1: "process_shutter_cmd protocol_sample drive_up_msg node_reset =
              csma_send_message (last (sent (process_shutter_cmd protocol_sample drive_up_msg node_reset)))
                (trigger_action action_up (send_dbgmsg protocol_sample ''bus-act up'' node_reset))"
     and u2: "last (sent (process_shutter_cmd protocol_sample drive_up_msg node_reset)) ! 7 = 0"
    by blast+
  have u3: "motor_state (process_shutter_cmd protocol_sample drive_up_msg node_reset)
       = motor_state_pre_up"
    by (subst u1) (simp add: csma_send_message_def)
  from v b have v1: "process_shutter_cmd protocol_sample (drive_up_msg[7 := 2]) node_reset =
              csma_send_message (last (sent (process_shutter_cmd protocol_sample (drive_up_msg[7 := 2]) node_reset)))
                node_reset"
     and v2: "last (sent (process_shutter_cmd protocol_sample (drive_up_msg[7 := 2]) node_reset)) ! 7 = 1"
    by blast+
  have v3: "motor_state (process_shutter_cmd protocol_sample (drive_up_msg[7 := 2]) node_reset)
       = motor_state_off"
    by (subst v1) (simp add: csma_send_message_def node_reset_def)
  from l k g b u2 u3 v2 v3 show ?thesis by blast
qed


subsection \<open>The schedule: the function in terms of its values\<close>

lemma process_schedule_alt:
  "process_schedule K time forced_tlow s =
     (if \<not> time_has_been_set s then s
      else if schedule_tfound time forced_tlow s \<noteq> 0
      then schedule_fire K (schedule_tfound time forced_tlow s)
             (s\<lparr>schedule_last_tfound := schedule_tfound time forced_tlow s\<rparr>)
      else s\<lparr>schedule_last_tfound := schedule_last_reset time forced_tlow s\<rparr>)"
proof (cases "time_has_been_set s")
  case False
  then show ?thesis by (simp add: process_schedule_def)
next
  case True
  define l where "l = schedule_last_reset time forced_tlow s"
  define s1 where "s1 = s\<lparr>schedule_last_tfound := l\<rparr>"
  define tf where "tf = schedule_tfound time forced_tlow s"
  have e1: "(if schedule_last_tfound s > time \<or> forced_tlow \<noteq> 0
             then s\<lparr>schedule_last_tfound := 0\<rparr> else s) = s1"
    by (simp add: s1_def l_def schedule_last_reset_def)
  have e2: "schedule_last_tfound s1 = l" "schedule s1 = schedule s"
    by (simp_all add: s1_def)
  have e3: "schedule_walk
       (if l \<noteq> 0 \<and>
           (if 5 * 6 \<le> (if forced_tlow \<noteq> 0 then forced_tlow else time div 6 * 6)
            then (if forced_tlow \<noteq> 0 then forced_tlow else time div 6 * 6) - 5 * 6 else 0) < l
        then l
        else if 5 * 6 \<le> (if forced_tlow \<noteq> 0 then forced_tlow else time div 6 * 6)
             then (if forced_tlow \<noteq> 0 then forced_tlow else time div 6 * 6) - 5 * 6 else 0)
       (time div 6 * 6 + 5) (schedule s) 0 = tf"
    unfolding tf_def schedule_tfound_def schedule_tlow_def schedule_thigh_def Let_def l_def
    by simp
  have e4: "s1\<lparr>schedule_last_tfound := tf\<rparr> = s\<lparr>schedule_last_tfound := tf\<rparr>"
    by (simp add: s1_def)
  have "process_schedule K time forced_tlow s =
     (if tf \<noteq> 0
      then if tf mod 6 = SCHEDULE_ACTION_UP
           then trigger_action action_up
                 (send_dbgmsg K ''sch-act up'' (s\<lparr>schedule_last_tfound := tf\<rparr>))
           else if tf mod 6 = SCHEDULE_ACTION_DOWN
           then trigger_action action_down
                 (send_dbgmsg K ''sch-act dn'' (s\<lparr>schedule_last_tfound := tf\<rparr>))
           else s\<lparr>schedule_last_tfound := tf\<rparr>
      else s1)"
    unfolding process_schedule_def Let_def e1 e2 e3 e4 using True by (simp only: if_False not_True_eq_False not_not)
  then show ?thesis
    unfolding tf_def[symmetric] s1_def l_def schedule_fire_def SCHEDULE_ACTION_UP_def
      SCHEDULE_ACTION_DOWN_def using True by (simp only: if_False not_True_eq_False not_not)
qed

lemma trigger_action_keeps:
  "current_time (trigger_action a s) = current_time s"
  "current_clock (trigger_action a s) = current_clock s"
  "time_has_been_set (trigger_action a s) = time_has_been_set s"
  "config (trigger_action a s) = config s"
  "sent (trigger_action a s) = sent s"
  "schedule_last_tfound (trigger_action a s) = schedule_last_tfound s"
  "schedule (trigger_action a s) = schedule s"
  by (cases a; simp)+

lemma send_dbgmsg_keeps:
  "current_time (send_dbgmsg K str s) = current_time s"
  "current_clock (send_dbgmsg K str s) = current_clock s"
  "time_has_been_set (send_dbgmsg K str s) = time_has_been_set s"
  "config (send_dbgmsg K str s) = config s"
  "schedule_last_tfound (send_dbgmsg K str s) = schedule_last_tfound s"
  "schedule (send_dbgmsg K str s) = schedule s"
  by (simp_all add: send_dbgmsg_def csma_send_message_def)

lemma schedule_fire_keeps:
  "current_time (schedule_fire K t s) = current_time s"
  "current_clock (schedule_fire K t s) = current_clock s"
  "time_has_been_set (schedule_fire K t s) = time_has_been_set s"
  "config (schedule_fire K t s) = config s"
  "schedule_last_tfound (schedule_fire K t s) = schedule_last_tfound s"
  "schedule (schedule_fire K t s) = schedule s"
  by (simp_all add: schedule_fire_def trigger_action_keeps send_dbgmsg_keeps
      del: trigger_action.simps)

lemma process_schedule_keeps:
  "current_time (process_schedule K time f s) = current_time s"
  "current_clock (process_schedule K time f s) = current_clock s"
  "time_has_been_set (process_schedule K time f s) = time_has_been_set s"
  "config (process_schedule K time f s) = config s"
  "schedule (process_schedule K time f s) = schedule s"
  by (simp_all add: process_schedule_alt schedule_fire_keeps)

subsection \<open>The TIME message\<close>

lemma process_ebus_busctl_rejected:
  assumes "\<not> busctl_accepted K msg s"
  shows "process_ebus_busctl K msg s = s"
proof -
  consider (response) "msg ! 5 AND P_BUSCTL_RESPMASK K \<noteq> 0"
    | (sender) "\<not> msg ! 5 AND P_BUSCTL_RESPMASK K \<noteq> 0"
        "msg ! 3 = 0xff \<or> msg ! 4 = 0xff \<or> msg ! 4 = 0"
    | (address) "\<not> msg ! 5 AND P_BUSCTL_RESPMASK K \<noteq> 0"
        "\<not> (msg ! 3 = 0xff \<or> msg ! 4 = 0xff \<or> msg ! 4 = 0)"
        "\<not> ((msg ! 1 = nodeid_hi (config s) \<and> msg ! 2 = nodeid_lo (config s))
            \<or> ((msg ! 1 = nodeid_hi (config s) \<or> msg ! 1 = 0xff) \<and> msg ! 2 = 0xff))"
    using assms unfolding busctl_accepted_def by blast
  then show ?thesis
  proof cases
    case response
    then show ?thesis
      unfolding process_ebus_busctl_def Let_def by (simp only: if_True not_False_eq_True)
  next
    case sender
    then show ?thesis
      unfolding process_ebus_busctl_def Let_def
      by (simp only: if_True if_False not_False_eq_True)
  next
    case address
    then show ?thesis
      unfolding process_ebus_busctl_def Let_def
      by (simp only: if_True if_False not_False_eq_True)
  qed
qed

lemma process_ebus_busctl_time:
  assumes "busctl_accepted K msg s"
    and "msg ! 5 AND NOT (P_BUSCTL_RESPMASK K) = P_BUSCTL_TIME K"
  shows "process_ebus_busctl K msg s =
     (if time_msg_time msg > current_time s
      then process_schedule K (time_msg_time msg) (current_time s)
             (set_current_fulltime (time_msg_time msg) (time_msg_deci msg) s)
      else set_current_fulltime (time_msg_time msg) (time_msg_deci msg) s)"
proof -
  from assms(1) have a: "msg ! 5 AND P_BUSCTL_RESPMASK K = 0"
    "\<not> (msg ! 3 = 0xff \<or> msg ! 4 = 0xff \<or> msg ! 4 = 0)"
    "(msg ! 1 = nodeid_hi (config s) \<and> msg ! 2 = nodeid_lo (config s))
          \<or> ((msg ! 1 = nodeid_hi (config s) \<or> msg ! 1 = 0xff) \<and> msg ! 2 = 0xff)"
    unfolding busctl_accepted_def by blast+
  show ?thesis
    unfolding process_ebus_busctl_def Let_def time_msg_time_def time_msg_deci_def
      get_current_time_def
    by (simp only: a assms(2) if_True if_False simp_thms)
qed

text \<open>
  Claim C9.  Every accepted TIME message sets the clock to the time it carries and marks
  the time as set, whether that time is newer than the node's or not; when it is not
  newer the handler does nothing else, and when it is newer the handler goes on to
  evaluate the schedule with the old time as forced low bound.
\<close>

theorem time_message_sets_clock:
  assumes "busctl_accepted K msg s"
    and "msg ! 5 AND NOT (P_BUSCTL_RESPMASK K) = P_BUSCTL_TIME K"
  shows "current_time (process_ebus_busctl K msg s) = time_msg_time msg
       \<and> current_clock (process_ebus_busctl K msg s) = ucast (time_msg_deci msg) * 10
       \<and> time_has_been_set (process_ebus_busctl K msg s)
       \<and> (time_msg_time msg \<le> current_time s \<longrightarrow>
            process_ebus_busctl K msg s =
              set_current_fulltime (time_msg_time msg) (time_msg_deci msg) s)
       \<and> (time_msg_time msg > current_time s \<longrightarrow>
            process_ebus_busctl K msg s =
              process_schedule K (time_msg_time msg) (current_time s)
                (set_current_fulltime (time_msg_time msg) (time_msg_deci msg) s))"
  unfolding process_ebus_busctl_time[OF assms]
  by (simp add: process_schedule_keeps set_current_fulltime_def not_less)


lemma time_msg_example_values:
  "time_msg_time time_msg_example = 2700" "time_msg_deci time_msg_example = 50"
  "busctl_accepted protocol_sample time_msg_example (node_reset\<lparr>current_time := t\<rparr>)"
  "time_msg_example ! 5 AND NOT (P_BUSCTL_RESPMASK protocol_sample)
     = P_BUSCTL_TIME protocol_sample"
  by (simp_all add: time_msg_example_def time_msg_time_def time_msg_deci_def
      busctl_accepted_def protocol_sample_def node_reset_def)

theorem time_message_sets_clock_witness:
  "busctl_accepted protocol_sample time_msg_example (node_reset\<lparr>current_time := 3000\<rparr>)
   \<and> time_msg_example ! 5 AND NOT (P_BUSCTL_RESPMASK protocol_sample)
       = P_BUSCTL_TIME protocol_sample
   \<and> time_msg_time time_msg_example \<le> current_time (node_reset\<lparr>current_time := 3000\<rparr>)
   \<and> current_time (process_ebus_busctl protocol_sample time_msg_example
         (node_reset\<lparr>current_time := 3000\<rparr>)) = 2700
   \<and> current_clock (process_ebus_busctl protocol_sample time_msg_example
         (node_reset\<lparr>current_time := 3000\<rparr>)) = 500
   \<and> time_has_been_set (process_ebus_busctl protocol_sample time_msg_example
         (node_reset\<lparr>current_time := 3000\<rparr>))
   \<and> process_ebus_busctl protocol_sample time_msg_example (node_reset\<lparr>current_time := 3000\<rparr>)
       = set_current_fulltime 2700 50 (node_reset\<lparr>current_time := 3000\<rparr>)"
  using time_message_sets_clock[OF time_msg_example_values(3)[of 3000]
      time_msg_example_values(4)]
    time_msg_example_values(3)[of 3000] time_msg_example_values(4)
  by (simp add: time_msg_example_values(1,2) set_current_fulltime_def)

subsection \<open>Frames sent by the handlers\<close>

lemma emits_same: "sent s' = sent s \<Longrightarrow> emits K msg b s s'"
  by (simp add: emits_def)

lemma emits_trans: "emits K msg b s s' \<Longrightarrow> emits K msg b s' s'' \<Longrightarrow> emits K msg b s s''"
  unfolding emits_def by (elim exE conjE) (rule_tac x = "new @ newa" in exI, auto)

lemma emits_csma: "handler_frame K msg b r \<Longrightarrow> emits K msg b s (csma_send_message r s)"
  by (simp add: emits_def csma_send_message_def)

lemma emits_dbg: "config s = config b \<Longrightarrow> emits K msg b s (send_dbgmsg K str s)"
proof (cases "debug_flags (config s) \<noteq> 0")
  case True
  assume c: "config s = config b"
  have "handler_frame K msg b (dbgmsg_frame K str s)"
    unfolding handler_frame_def
    by (rule disjI1, rule exI[of _ str]) (simp add: dbgmsg_frame_def c)
  then show ?thesis
    using True by (simp add: send_dbgmsg_def emits_csma)
next
  case False
  then show ?thesis
    by (simp add: send_dbgmsg_def emits_same)
qed

lemma emits_trigger: "emits K msg b s s' \<Longrightarrow> emits K msg b s (trigger_action a s')"
  by (simp add: emits_def trigger_action_keeps)

lemma emits_schedule_fire: "config s = config b \<Longrightarrow> emits K msg b s (schedule_fire K t s)"
  unfolding schedule_fire_def
  by (simp add: emits_trigger emits_dbg emits_same del: trigger_action.simps)

lemma emits_process_schedule:
  "config s = config b \<Longrightarrow> emits K msg b s (process_schedule K t f s)"
proof -
  assume c: "config s = config b"
  have "emits K msg b (s\<lparr>schedule_last_tfound := x\<rparr>)
          (schedule_fire K y (s\<lparr>schedule_last_tfound := x\<rparr>))" for x y
    by (rule emits_schedule_fire) (simp add: c)
  then have "emits K msg b s (schedule_fire K y (s\<lparr>schedule_last_tfound := x\<rparr>))" for x y
    by (simp add: emits_def)
  then show ?thesis
    unfolding process_schedule_alt by (simp add: emits_same)
qed

lemma response_frame_ok:
  assumes "length msg = 16" and "length r = 16"
    and "r ! 0 = msg ! 0" and "r ! 1 = msg ! 3" and "r ! 2 = msg ! 4"
    and "r ! 3 = nodeid_hi (config b)" and "r ! 4 = nodeid_lo (config b)"
    and "r ! 5 = msg ! 5 OR P_BUSCTL_RESPMASK K"
  shows "handler_frame K msg b r"
  using assms by (simp add: handler_frame_def response_convention_def)

lemma emits_send_schedule:
  "length m = 16 \<Longrightarrow> m ! 0 = msg ! 0 \<and> response_convention K msg b m \<Longrightarrow>
   emits K msg b s (send_schedule dim i tbl m s)"
proof (induction tbl arbitrary: i m s)
  case Nil
  then show ?case by (simp add: emits_same)
next
  case (Cons v tbl)
  define m' where "m' = m[13 := (if v mod 6 = SCHEDULE_ACTION_UP then 0xc0
                           else if v mod 6 = SCHEDULE_ACTION_DOWN then 0x80
                           else 0), 9 := of_nat dim, 10 := of_nat i,
                     11 := ucast (drop_bit 8 (v div 6 * 6)), 12 := ucast (v div 6 * 6),
                     14 := 0, 15 := 0]"
  have l: "length m' = 16" using Cons.prems(1) by (simp add: m'_def)
  have h: "m' ! 0 = msg ! 0 \<and> response_convention K msg b m'"
    using Cons.prems by (simp add: m'_def response_convention_def)
  have "emits K msg b s (csma_send_message m' s)"
    by (rule emits_csma) (simp add: handler_frame_def h)
  moreover have "emits K msg b (csma_send_message m' s)
      (send_schedule dim (Suc i) tbl m' (csma_send_message m' s))"
    by (rule Cons.IH[OF l h])
  ultimately have "emits K msg b s (send_schedule dim (Suc i) tbl m' (csma_send_message m' s))"
    by (rule emits_trans)
  then show ?case
    by (simp add: m'_def Let_def)
qed

lemma emits_csma_after:
  "emits K msg b s s1 \<Longrightarrow> handler_frame K msg b r \<Longrightarrow>
   emits K msg b s (csma_send_message r s1)"
  by (rule emits_trans[where s' = s1]) (simp_all add: emits_csma)

lemma emits_refl: "emits K msg b s s"
  by (simp add: emits_same)

lemma sent_init_eeprom: "sent (init_eeprom f s) = sent s"
  by (simp add: init_eeprom_def Let_def split_beta)

lemma emits_drive_outcome:
  "emits K msg s s (trigger_action a (send_dbgmsg K str s))"
  by (rule emits_trigger, rule emits_dbg) simp

lemma drive_outcome_keeps:
  "config (trigger_action a (send_dbgmsg K str s)) = config s"
  by (simp add: trigger_action_keeps send_dbgmsg_keeps)

lemma emits_process_shutter_cmd:
  assumes "length msg = 16"
  shows "emits K msg s s (process_shutter_cmd K msg s)"
proof -
  let ?bad = "msg ! 7 > 1
                  \<or> msg ! 9 \<noteq> 0 \<or> msg ! 10 \<noteq> 0 \<or> msg ! 11 \<noteq> 0 \<or> msg ! 12 \<noteq> 0
                  \<or> msg ! 13 \<noteq> 0 \<or> msg ! 14 \<noteq> 0 \<or> msg ! 15 \<noteq> 0
                  \<or> msg ! 8 AND 0x10 \<noteq> 0
                  \<or> msg ! 8 AND 0x20 \<noteq> 0"
  note frame = handler_frame_def response_convention_def nth_memset_below
  consider (query) "msg ! 6 = P_H61_SHUTTER_QUERY K"
    | (drive) "msg ! 6 \<noteq> P_H61_SHUTTER_QUERY K" "msg ! 6 = P_H61_SHUTTER_DRIVE K"
    | (list) "msg ! 6 \<noteq> P_H61_SHUTTER_QUERY K" "msg ! 6 \<noteq> P_H61_SHUTTER_DRIVE K"
        "msg ! 6 \<noteq> P_H61_SHUTTER_QRY_TIMINGS K" "msg ! 6 \<noteq> P_H61_SHUTTER_UPD_TIMINGS K"
        "msg ! 6 = P_H61_SHUTTER_QRY_SCHEDULE K"
    | (silent) "msg ! 6 \<noteq> P_H61_SHUTTER_QUERY K" "msg ! 6 \<noteq> P_H61_SHUTTER_DRIVE K"
        "msg ! 6 = P_H61_SHUTTER_QRY_TIMINGS K \<or> msg ! 6 = P_H61_SHUTTER_UPD_TIMINGS K
         \<or> msg ! 6 \<noteq> P_H61_SHUTTER_QRY_SCHEDULE K"
    by blast
  then show ?thesis
  proof cases
    case query
    then show ?thesis
      unfolding process_shutter_cmd_def using assms
      by (simp add: Let_def emits_csma frame)
  next
    case drive
    consider (bad) ?bad | (up) "\<not> ?bad" "msg ! 8 AND 0xc0 = 0xc0"
      | (down) "\<not> ?bad" "msg ! 8 AND 0xc0 \<noteq> 0xc0" "msg ! 8 AND 0xc0 = 0x80"
      | (neither) "\<not> ?bad" "msg ! 8 AND 0xc0 \<noteq> 0xc0" "msg ! 8 AND 0xc0 \<noteq> 0x80"
      by blast
    then show ?thesis
    proof cases
      case bad
      then show ?thesis
        unfolding process_shutter_cmd_def using assms drive
        by (simp add: Let_def emits_csma frame del: trigger_action.simps)
    next
      case up
      then show ?thesis
        unfolding process_shutter_cmd_def using assms drive
        by (simp add: Let_def emits_csma_after emits_drive_outcome drive_outcome_keeps frame
            del: trigger_action.simps)
    next
      case down
      then show ?thesis
        unfolding process_shutter_cmd_def using assms drive
        by (simp add: Let_def emits_csma_after emits_drive_outcome drive_outcome_keeps frame
            del: trigger_action.simps)
    next
      case neither
      then show ?thesis
        unfolding process_shutter_cmd_def using assms drive
        by (simp add: Let_def emits_csma frame del: trigger_action.simps)
    qed
  next
    case list
    then show ?thesis
      unfolding process_shutter_cmd_def using assms
      by (simp add: Let_def emits_send_schedule response_convention_def)
  next
    case silent
    have "sent (process_shutter_cmd K msg s) = sent s"
      unfolding process_shutter_cmd_def using silent
      by (auto simp add: Let_def sent_init_eeprom)
    then show ?thesis by (rule emits_same)
  qed
qed

lemma emits_process_ebus_h61:
  assumes "length msg = 16"
  shows "emits K msg s s (process_ebus_h61 K msg s)"
proof -
  have "sent (process_sensor_cmd K msg s) = sent s"
    by (simp add: process_sensor_cmd_def)
  then have "emits K msg s s (process_sensor_cmd K msg s)"
    by (rule emits_same)
  then show ?thesis
    unfolding process_ebus_h61_def Let_def
    by (simp add: emits_refl emits_process_shutter_cmd[OF assms])
qed


lemma emits_process_ebus_busctl:
  assumes "length msg = 16"
  shows "emits K msg s s (process_ebus_busctl K msg s)"
proof (cases "busctl_accepted K msg s")
  case False
  then show ?thesis by (simp add: process_ebus_busctl_rejected emits_refl)
next
  case True
  then have a: "\<not> msg ! 5 AND P_BUSCTL_RESPMASK K \<noteq> 0"
    "\<not> (msg ! 3 = 0xff \<or> msg ! 4 = 0xff \<or> msg ! 4 = 0)"
    "(msg ! 1 = nodeid_hi (config s) \<and> msg ! 2 = nodeid_lo (config s))
          \<or> ((msg ! 1 = nodeid_hi (config s) \<or> msg ! 1 = 0xff) \<and> msg ! 2 = 0xff)"
    unfolding busctl_accepted_def by blast+
  note frame = handler_frame_def response_convention_def nth_memset_below nth_memcpy_below
  let ?c = "msg ! 5 AND NOT (P_BUSCTL_RESPMASK K)"
  consider (time) "?c = P_BUSCTL_TIME K"
    | (qry_time) "?c \<noteq> P_BUSCTL_TIME K" "?c = P_BUSCTL_QRY_TIME K"
    | (qry_version) "?c \<noteq> P_BUSCTL_TIME K" "?c \<noteq> P_BUSCTL_QRY_TIME K"
        "?c = P_BUSCTL_QRY_VERSION K"
    | (set_debug) "?c \<noteq> P_BUSCTL_TIME K" "?c \<noteq> P_BUSCTL_QRY_TIME K"
        "?c \<noteq> P_BUSCTL_QRY_VERSION K" "?c = P_BUSCTL_SET_DEBUG K"
    | (qry_debug) "?c \<noteq> P_BUSCTL_TIME K" "?c \<noteq> P_BUSCTL_QRY_TIME K"
        "?c \<noteq> P_BUSCTL_QRY_VERSION K" "?c \<noteq> P_BUSCTL_SET_DEBUG K"
        "?c = P_BUSCTL_QRY_DEBUG K"
    | (other) "?c \<noteq> P_BUSCTL_TIME K" "?c \<noteq> P_BUSCTL_QRY_TIME K"
        "?c \<noteq> P_BUSCTL_QRY_VERSION K" "?c \<noteq> P_BUSCTL_SET_DEBUG K"
        "?c \<noteq> P_BUSCTL_QRY_DEBUG K"
    by blast
  then show ?thesis
  proof cases
    case time
    let ?s1 = "set_current_fulltime (time_msg_time msg) (time_msg_deci msg) s"
    have s1: "emits K msg s s ?s1"
      by (rule emits_same) (simp add: set_current_fulltime_def)
    have "emits K msg s ?s1 (process_schedule K (time_msg_time msg) (current_time s) ?s1)"
      by (rule emits_process_schedule) (simp add: set_current_fulltime_def)
    with s1 have "emits K msg s s (process_schedule K (time_msg_time msg) (current_time s) ?s1)"
      by (rule emits_trans)
    with s1 show ?thesis
      unfolding process_ebus_busctl_time[OF True time] by simp
  next
    case qry_time
    then show ?thesis
      unfolding process_ebus_busctl_def using assms a
      by (simp add: Let_def split_beta emits_csma frame)
  next
    case qry_version
    then show ?thesis
      unfolding process_ebus_busctl_def using assms a
      by (simp add: Let_def emits_csma frame)
  next
    case set_debug
    have "emits K msg s s (set_debug_flags (msg ! 6) s)"
      by (rule emits_same) (simp add: set_debug_flags_def)
    with set_debug show ?thesis
      unfolding process_ebus_busctl_def using a
      by (simp add: Let_def)
  next
    case qry_debug
    then show ?thesis
      unfolding process_ebus_busctl_def using assms a
      by (simp add: Let_def emits_csma frame)
  next
    case other
    then show ?thesis
      unfolding process_ebus_busctl_def using a
      by (simp add: Let_def emits_refl)
  qed
qed

lemma process_ebus_h61_rejected:
  "\<not> (msg ! 1 = nodeid_hi (config s) \<and> msg ! 2 = nodeid_lo (config s)) \<Longrightarrow>
   process_ebus_h61 K msg s = s"
  unfolding process_ebus_h61_def Let_def by (simp only: if_True not_False_eq_True)

subsection \<open>The default schedule\<close>

lemma init_eeprom_default:
  "schedule (init_eeprom 1 (node_reset\<lparr>schedule := replicate 16 0\<rparr>)) = schedule node_reset"
  by (simp add: init_eeprom_def node_reset_def SCHEDULE_ACTION_UP_def SCHEDULE_ACTION_DOWN_def
      numeral_eq_Suc)

subsection \<open>The sensor answer\<close>

lemma send_sensor_result_frames:
  "\<exists>new. sent (send_sensor_result K scratchpad s) = sent s @ new
      \<and> (\<forall>r\<in>set new. (\<exists>string. r = dbgmsg_frame K string s) \<or> sensor_answer K s r)"
proof (cases "active (sensor_ctrl s) = 0")
  case True
  then show ?thesis by (simp add: send_sensor_result_def)
next
  case False
  let ?msg = "take 9 scratchpad"
  let ?t = "if ?msg ! 8 = fold (\<lambda>data crc. crc_ibutton_update crc data) (take 8 ?msg) 0
            then sensor_temperature ?msg else 0x7fff"
  show ?thesis
  proof (cases "?t \<noteq> 0x7fff \<or> active (sensor_ctrl s) - 1 = 0")
    case True
    then show ?thesis
      using False unfolding send_sensor_result_def Let_def
      by (auto simp add: csma_send_message_def sensor_answer_def)
  next
    case False
    have e: "sent (send_sensor_result K scratchpad s) = sent (send_dbgmsg K ''sens #4'' s)"
      using False \<open>active (sensor_ctrl s) \<noteq> 0\<close> unfolding send_sensor_result_def Let_def
      by (simp add: send_dbgmsg_def csma_send_message_def dbgmsg_frame_def)
    show ?thesis
    proof (cases "debug_flags (config s) \<noteq> 0")
      case True
      then have "sent (send_sensor_result K scratchpad s)
          = sent s @ [dbgmsg_frame K ''sens #4'' s]"
        unfolding e by (simp add: send_dbgmsg_def csma_send_message_def)
      then show ?thesis by auto
    next
      case False
      then have "sent (send_sensor_result K scratchpad s) = sent s @ []"
        unfolding e by (simp add: send_dbgmsg_def)
      then show ?thesis by (intro exI[of _ "[]"]) simp
    qed
  qed
qed

lemma process_sensor_cmd_addr:
  assumes "msg ! 6 = P_H61_SENSOR_TEMPERATURE K"
  shows "active (sensor_ctrl s) = 0 \<longrightarrow>
           addr_hi (sensor_ctrl (process_sensor_cmd K msg s)) = msg ! 3
         \<and> addr_lo (sensor_ctrl (process_sensor_cmd K msg s)) = msg ! 4"
    and "active (sensor_ctrl s) \<noteq> 0
         \<and> (msg ! 3 \<noteq> addr_hi (sensor_ctrl s) \<or> msg ! 4 \<noteq> addr_lo (sensor_ctrl s)) \<longrightarrow>
           addr_hi (sensor_ctrl (process_sensor_cmd K msg s)) = 0xff
         \<and> addr_lo (sensor_ctrl (process_sensor_cmd K msg s)) = 0xff"
  using assms by (simp_all add: process_sensor_cmd_def)

lemma crc_zero: "crc_ibutton_update 0 0 = 0"
  by (simp add: crc_ibutton_update_def numeral_eq_Suc)

lemma sensor_temperature_zero: "sensor_temperature (replicate 9 0) = 3"
  by (simp add: sensor_temperature_def numeral_eq_Suc signed_divide_int_def)

lemma two_sensor_requests:
  "sensor_ctrl (process_message protocol_sample (sensor_request[4 := 2])
      (process_message protocol_sample sensor_request node_reset))
     = \<lparr>active = 5, addr_hi = 0xff, addr_lo = 0xff\<rparr>"
  "sent (process_message protocol_sample (sensor_request[4 := 2])
      (process_message protocol_sample sensor_request node_reset)) = []"
  "config (process_message protocol_sample (sensor_request[4 := 2])
      (process_message protocol_sample sensor_request node_reset)) = config node_reset"
  by (simp_all add: process_message_def process_ebus_h61_def process_sensor_cmd_def
      sensor_request_def protocol_sample_def node_reset_def)


text \<open>
  Claim C6, as amended.  Handling a message of 16 bytes (\<^verbatim>\<open>process_ebus_busctl\<close>,
  \<^verbatim>\<open>process_ebus_h61\<close> with \<^verbatim>\<open>process_shutter_cmd\<close> and \<^verbatim>\<open>process_sensor_cmd\<close>, behind
  the dispatch of \<^verbatim>\<open>main\<close>) only adds frames to those sent, and each frame added is a
  debug frame of \<^verbatim>\<open>send_dbgmsg\<close> or a response: it carries the request's protocol byte,
  its destination is the request's source, its source is the node id and the response
  mask is set in its command byte.  A message whose destination is neither the node id
  nor a broadcast address (low byte 0xff, high byte the node's or 0xff) leaves the node
  as it was: nothing is sent.  The answer to a temperature request is sent later, by
  \<^verbatim>\<open>send_sensor_result\<close>: its source is the node id, its command byte carries the response
  mask, and its destination is the address in the request record, which a request
  arriving with no read-out under way sets to its source and a request from another
  source arriving during a read-out sets to 0xff:0xff.
\<close>

theorem response_convention_holds:
  assumes "length msg = 16"
  shows "(\<exists>new. sent (process_message K msg s) = sent s @ new
            \<and> (\<forall>r\<in>set new. (\<exists>string. r = dbgmsg_frame K string s)
                  \<or> (r ! 0 = msg ! 0 \<and> response_convention K msg s r)))
       \<and> (\<not> (msg ! 1 = nodeid_hi (config s) \<and> msg ! 2 = nodeid_lo (config s))
           \<and> \<not> ((msg ! 1 = nodeid_hi (config s) \<or> msg ! 1 = 0xff) \<and> msg ! 2 = 0xff)
          \<longrightarrow> process_message K msg s = s)
       \<and> (\<exists>new. sent (send_sensor_result K scratchpad s) = sent s @ new
            \<and> (\<forall>r\<in>set new. (\<exists>string. r = dbgmsg_frame K string s)
                  \<or> sensor_answer K s r))
       \<and> (msg ! 6 = P_H61_SENSOR_TEMPERATURE K \<and> active (sensor_ctrl s) = 0 \<longrightarrow>
             addr_hi (sensor_ctrl (process_sensor_cmd K msg s)) = msg ! 3
           \<and> addr_lo (sensor_ctrl (process_sensor_cmd K msg s)) = msg ! 4)
       \<and> (msg ! 6 = P_H61_SENSOR_TEMPERATURE K \<and> active (sensor_ctrl s) \<noteq> 0
           \<and> (msg ! 3 \<noteq> addr_hi (sensor_ctrl s) \<or> msg ! 4 \<noteq> addr_lo (sensor_ctrl s)) \<longrightarrow>
             addr_hi (sensor_ctrl (process_sensor_cmd K msg s)) = 0xff
           \<and> addr_lo (sensor_ctrl (process_sensor_cmd K msg s)) = 0xff)"
proof (intro conjI)
  have "emits K msg s s (process_message K msg s)"
    unfolding process_message_def
    by (simp add: emits_process_ebus_busctl[OF assms] emits_process_ebus_h61[OF assms]
        emits_same)
  then show "\<exists>new. sent (process_message K msg s) = sent s @ new
            \<and> (\<forall>r\<in>set new. (\<exists>string. r = dbgmsg_frame K string s)
                  \<or> (r ! 0 = msg ! 0 \<and> response_convention K msg s r))"
    unfolding emits_def handler_frame_def .
next
  show "\<not> (msg ! 1 = nodeid_hi (config s) \<and> msg ! 2 = nodeid_lo (config s))
           \<and> \<not> ((msg ! 1 = nodeid_hi (config s) \<or> msg ! 1 = 0xff) \<and> msg ! 2 = 0xff)
          \<longrightarrow> process_message K msg s = s"
  proof
    assume n: "\<not> (msg ! 1 = nodeid_hi (config s) \<and> msg ! 2 = nodeid_lo (config s))
           \<and> \<not> ((msg ! 1 = nodeid_hi (config s) \<or> msg ! 1 = 0xff) \<and> msg ! 2 = 0xff)"
    then have "\<not> busctl_accepted K msg s"
      unfolding busctl_accepted_def by blast
    then have "process_ebus_busctl K msg s = s"
      by (rule process_ebus_busctl_rejected)
    moreover have "process_ebus_h61 K msg s = s"
      using n by (simp add: process_ebus_h61_rejected)
    ultimately show "process_message K msg s = s"
      by (simp add: process_message_def)
  qed
next
  show "\<exists>new. sent (send_sensor_result K scratchpad s) = sent s @ new
            \<and> (\<forall>r\<in>set new. (\<exists>string. r = dbgmsg_frame K string s)
                  \<or> sensor_answer K s r)"
    by (rule send_sensor_result_frames)
next
  show "msg ! 6 = P_H61_SENSOR_TEMPERATURE K \<and> active (sensor_ctrl s) = 0 \<longrightarrow>
             addr_hi (sensor_ctrl (process_sensor_cmd K msg s)) = msg ! 3
           \<and> addr_lo (sensor_ctrl (process_sensor_cmd K msg s)) = msg ! 4"
    using process_sensor_cmd_addr(1)[of msg K s] by blast
next
  show "msg ! 6 = P_H61_SENSOR_TEMPERATURE K \<and> active (sensor_ctrl s) \<noteq> 0
           \<and> (msg ! 3 \<noteq> addr_hi (sensor_ctrl s) \<or> msg ! 4 \<noteq> addr_lo (sensor_ctrl s)) \<longrightarrow>
             addr_hi (sensor_ctrl (process_sensor_cmd K msg s)) = 0xff
           \<and> addr_lo (sensor_ctrl (process_sensor_cmd K msg s)) = 0xff"
    using process_sensor_cmd_addr(2)[of msg K s] by blast
qed

lemma memset_numeral:
  "memset m p c (numeral k) = memset (m[p := c]) (Suc p) c (pred_numeral k)"
  by (simp add: numeral_eq_Suc)

lemma qry_time_msg_sent:
  "sent (process_message protocol_sample qry_time_msg node_reset) =
     [[0x81, 0, 1, 0, 17, 0x82, 0, 0, 0, 0, 0, 0, 0, 0, 0, 0]]"
  by (simp add: process_message_def process_ebus_busctl_def qry_time_msg_def
      protocol_sample_def node_reset_def Let_def get_current_fulltime_def
      csma_send_message_def memset_numeral)

theorem response_convention_holds_witness:
  "length qry_time_msg = 16
   \<and> (\<exists>new. sent (process_message protocol_sample qry_time_msg node_reset)
              = sent node_reset @ new
          \<and> (\<forall>r\<in>set new. (\<exists>string. r = dbgmsg_frame protocol_sample string node_reset)
                \<or> (r ! 0 = qry_time_msg ! 0
                    \<and> response_convention protocol_sample qry_time_msg node_reset r)))
   \<and> sent (process_message protocol_sample qry_time_msg node_reset) =
        [[0x81, 0, 1, 0, 17, 0x82, 0, 0, 0, 0, 0, 0, 0, 0, 0, 0]]
   \<and> length (qry_time_msg[2 := 18]) = 16
   \<and> \<not> ((qry_time_msg[2 := 18]) ! 1 = nodeid_hi (config node_reset)
          \<and> (qry_time_msg[2 := 18]) ! 2 = nodeid_lo (config node_reset))
   \<and> \<not> (((qry_time_msg[2 := 18]) ! 1 = nodeid_hi (config node_reset)
           \<or> (qry_time_msg[2 := 18]) ! 1 = 0xff) \<and> (qry_time_msg[2 := 18]) ! 2 = 0xff)
   \<and> process_message protocol_sample (qry_time_msg[2 := 18]) node_reset = node_reset"
proof -
  have l: "length qry_time_msg = 16" "length (qry_time_msg[2 := 18]) = 16"
    by (simp_all add: qry_time_msg_def)
  have n: "\<not> ((qry_time_msg[2 := 18]) ! 1 = nodeid_hi (config node_reset)
          \<and> (qry_time_msg[2 := 18]) ! 2 = nodeid_lo (config node_reset))"
    "\<not> (((qry_time_msg[2 := 18]) ! 1 = nodeid_hi (config node_reset)
           \<or> (qry_time_msg[2 := 18]) ! 1 = 0xff) \<and> (qry_time_msg[2 := 18]) ! 2 = 0xff)"
    by (simp_all add: qry_time_msg_def node_reset_def)
  from response_convention_holds[OF l(1), of protocol_sample node_reset "[]"]
  have a: "\<exists>new. sent (process_message protocol_sample qry_time_msg node_reset)
              = sent node_reset @ new
          \<and> (\<forall>r\<in>set new. (\<exists>string. r = dbgmsg_frame protocol_sample string node_reset)
                \<or> (r ! 0 = qry_time_msg ! 0
                    \<and> response_convention protocol_sample qry_time_msg node_reset r))"
    by (rule conjunct1)
  from response_convention_holds[OF l(2), of protocol_sample node_reset "[]"] n
  have b: "process_message protocol_sample (qry_time_msg[2 := 18]) node_reset = node_reset"
    by blast
  from l n a b qry_time_msg_sent show ?thesis by blast
qed

text \<open>
  The reading of claim C6 fails for the sensor answer: after temperature requests from
  node 0:1 and from node 0:2 the answer goes to 0xff:0xff, the source of neither.
\<close>

lemma sensor_answer_example:
  assumes "sensor_ctrl s = \<lparr>active = 5, addr_hi = 0xff, addr_lo = 0xff\<rparr>"
    and "sent s = []" and "config s = config node_reset"
  shows "sent (send_sensor_result protocol_sample (replicate 9 0) s) =
        [[0x86, 0xff, 0xff, 0, 17, 0xa0, 1, 0x11, 0, 3, 0x80, 0, 0x80, 0, 0x80, 0]]"
proof -
  have r: "take 9 (replicate 9 (0::byte)) = replicate 9 0"
    "take 8 (replicate 9 (0::byte)) = replicate 8 0" "replicate 9 (0::byte) ! 8 = 0"
    by simp_all
  have c: "fold (\<lambda>data crc. crc_ibutton_update crc data) (replicate 8 0) 0 = 0"
    by (simp add: numeral_eq_Suc crc_zero)
  have n: "nodeid_hi (config node_reset) = 0" "nodeid_lo (config node_reset) = 17"
    by (simp_all add: node_reset_def)
  show ?thesis
    unfolding send_sensor_result_def Let_def r c sensor_temperature_zero
    by (simp add: assms n csma_send_message_def protocol_sample_def)
qed

theorem response_convention_counterexample:
  "sensor_request ! 3 = 0 \<and> sensor_request ! 4 = 1
   \<and> sensor_request[4 := 2] ! 3 = 0 \<and> sensor_request[4 := 2] ! 4 = 2
   \<and> sent (process_message protocol_sample (sensor_request[4 := 2])
        (process_message protocol_sample sensor_request node_reset)) = []
   \<and> sent (send_sensor_result protocol_sample (replicate 9 0)
        (process_message protocol_sample (sensor_request[4 := 2])
          (process_message protocol_sample sensor_request node_reset))) =
        [[0x86, 0xff, 0xff, 0, 17, 0xa0, 1, 0x11, 0, 3, 0x80, 0, 0x80, 0, 0x80, 0]]"
  using sensor_answer_example[OF two_sensor_requests] two_sensor_requests(2)
  by (simp add: sensor_request_def)


subsection \<open>Schedule evaluation\<close>

lemma schedule_walk_last:
  "schedule_walk tlow thigh ts acc =
     last (acc # filter (in_window tlow thigh) (takeWhile (\<lambda>t. t \<noteq> 0) ts))"
  by (induction ts arbitrary: acc) (simp_all add: in_window_def)

lemma schedule_tfound_last:
  "schedule_tfound time forced_tlow s =
     last_in_window (schedule_tlow time forced_tlow s) (schedule_thigh time) (schedule s)"
  by (simp add: schedule_tfound_def last_in_window_def schedule_walk_last)

lemma last_in_window_cases:
  "last_in_window tlow thigh tbl = 0
   \<or> (in_window tlow thigh (last_in_window tlow thigh tbl)
      \<and> last_in_window tlow thigh tbl \<in> set (takeWhile (\<lambda>t. t \<noteq> 0) tbl))"
proof (cases "filter (in_window tlow thigh) (takeWhile (\<lambda>t. t \<noteq> 0) tbl) = []")
  case True
  then show ?thesis by (simp add: last_in_window_def)
next
  case False
  let ?xs = "filter (in_window tlow thigh) (takeWhile (\<lambda>t. t \<noteq> 0) tbl)"
  from False have "last ?xs \<in> set ?xs" by (rule last_in_set)
  then have "in_window tlow thigh (last ?xs) \<and> last ?xs \<in> set (takeWhile (\<lambda>t. t \<noteq> 0) tbl)"
    by simp
  moreover have "last_in_window tlow thigh tbl = last ?xs"
    using False by (simp add: last_in_window_def)
  ultimately show ?thesis by simp
qed

lemma last_in_window_nonzero:
  assumes "e \<in> set (takeWhile (\<lambda>t. t \<noteq> 0) tbl)" and "in_window tlow thigh e"
  shows "last_in_window tlow thigh tbl \<noteq> 0"
proof -
  let ?xs = "filter (in_window tlow thigh) (takeWhile (\<lambda>t. t \<noteq> 0) tbl)"
  from assms have ne: "?xs \<noteq> []"
    by (auto simp add: filter_empty_conv)
  then have "last ?xs \<in> set ?xs" by (rule last_in_set)
  then have "last ?xs \<in> set (takeWhile (\<lambda>t. t \<noteq> 0) tbl)" by simp
  then have "last ?xs \<noteq> 0" by (auto dest: set_takeWhileD)
  then show ?thesis using ne by (simp add: last_in_window_def)
qed

text \<open>The bound \<open>tlow\<close> is never below a remembered time that was kept.\<close>

lemma schedule_tlow_ge_last:
  "schedule_last_reset time forced_tlow s \<le> schedule_tlow time forced_tlow s"
  by (auto simp add: schedule_tlow_def Let_def word_neq_0_conv not_less)

lemma schedule_tfound_above:
  "schedule_tfound time forced_tlow s = 0
   \<or> schedule_last_reset time forced_tlow s < schedule_tfound time forced_tlow s"
  using last_in_window_cases[of "schedule_tlow time forced_tlow s" "schedule_thigh time"
      "schedule s"] schedule_tlow_ge_last[of time forced_tlow s]
  by (auto simp add: schedule_tfound_last in_window_def)

lemma schedule_fire_last:
  "schedule_last_tfound (schedule_fire K tf s) = schedule_last_tfound s"
  by (rule schedule_fire_keeps)

lemma process_schedule_last:
  "schedule_last_tfound (process_schedule K time forced_tlow s) =
     (if \<not> time_has_been_set s then schedule_last_tfound s
      else if schedule_tfound time forced_tlow s \<noteq> 0 then schedule_tfound time forced_tlow s
      else schedule_last_reset time forced_tlow s)"
  by (simp add: process_schedule_alt schedule_fire_keeps)

lemma process_schedule_mono:
  assumes "schedule_last_tfound s \<le> t"
  shows "schedule_last_tfound s \<le> schedule_last_tfound (process_schedule K t 0 s)"
proof -
  from assms have r: "schedule_last_reset t 0 s = schedule_last_tfound s"
    by (auto simp add: schedule_last_reset_def)
  show ?thesis
    using schedule_tfound_above[of t 0 s]
    by (auto simp add: process_schedule_last r)
qed

lemma evaluations_mono:
  "no_wrap K ts s \<Longrightarrow> schedule_last_tfound s \<le> schedule_last_tfound (evaluations K ts s)"
proof (induction ts arbitrary: s)
  case Nil
  then show ?case by simp
next
  case (Cons t ts)
  then have "schedule_last_tfound s \<le> schedule_last_tfound (process_schedule K t 0 s)"
    by (simp add: process_schedule_mono)
  also have "\<dots> \<le> schedule_last_tfound (evaluations K ts (process_schedule K t 0 s))"
    using Cons by simp
  finally show ?case by simp
qed

lemma no_wrap_append:
  "no_wrap K (ts @ [t]) s \<longleftrightarrow>
     no_wrap K ts s \<and> schedule_last_tfound (evaluations K ts s) \<le> t"
  by (induction ts arbitrary: s) auto



lemma schedule_example_fields:
  "time_has_been_set (schedule_example tbl)" "schedule (schedule_example tbl) = tbl"
  "schedule_last_tfound (schedule_example tbl) = 0"
  "motor_state (schedule_example tbl) = motor_state_off"
  "debug_flags (config (schedule_example tbl)) = 0"
  by (simp_all add: schedule_example_def node_reset_def)

lemma schedule_example_tfound:
  "schedule_tfound 2700 0 (schedule_example [2701, 0, 0, 0]) = 2701"
  "schedule_tfound 2706 0 (schedule_example [2705, 2695]) = 2695"
  "schedule_tfound 2706 0 (schedule_example [0, 2701]) = 0"
  by (simp_all add: schedule_tfound_def schedule_tlow_def schedule_thigh_def
      schedule_last_reset_def schedule_example_fields Let_def)






text \<open>
  Let an evaluation with the clock set pick the entry \<open>T\<close>.  After it the remembered
  entry is \<open>T\<close>; and after any further evaluations without forced low bound, none of
  which meets the test \<^verbatim>\<open>schedule_last_tfound > time\<close>, an evaluation at \<open>t\<close> without
  forced low bound has its low bound at \<open>T\<close> or above and does not pick \<open>T\<close>.
\<close>

lemma not_refired_while_remembered:
  assumes "time_has_been_set s"
    and "schedule_tfound time forced_tlow s = T" and "T \<noteq> 0"
    and "no_wrap K (ts @ [t]) (process_schedule K time forced_tlow s)"
  shows "schedule_last_tfound (process_schedule K time forced_tlow s) = T
       \<and> T \<le> schedule_tlow t 0 (evaluations K ts (process_schedule K time forced_tlow s))
       \<and> schedule_tfound t 0 (evaluations K ts (process_schedule K time forced_tlow s)) \<noteq> T"
proof -
  let ?s1 = "process_schedule K time forced_tlow s"
  let ?s2 = "evaluations K ts ?s1"
  have l1: "schedule_last_tfound ?s1 = T"
    using assms(1-3) by (simp add: process_schedule_last)
  from assms(4) have w: "no_wrap K ts ?s1" and u: "schedule_last_tfound ?s2 \<le> t"
    by (simp_all add: no_wrap_append)
  from evaluations_mono[OF w] l1 have l2: "T \<le> schedule_last_tfound ?s2"
    by simp
  from u have r: "schedule_last_reset t 0 ?s2 = schedule_last_tfound ?s2"
    by (auto simp add: schedule_last_reset_def)
  from schedule_tlow_ge_last[of t 0 ?s2] r l2
  have low: "T \<le> schedule_tlow t 0 ?s2"
    by simp
  from schedule_tfound_above[of t 0 ?s2] r l2 assms(3)
  have "schedule_tfound t 0 ?s2 \<noteq> T"
    by auto
  with l1 low show ?thesis by simp
qed

lemma not_refired_while_remembered_example:
  "time_has_been_set (schedule_example [2701, 0, 0, 0])
   \<and> schedule_tfound 2700 0 (schedule_example [2701, 0, 0, 0]) = 2701
   \<and> (2701 :: uint16) \<noteq> 0
   \<and> no_wrap protocol_sample ([2706] @ [2712])
        (process_schedule protocol_sample 2700 0 (schedule_example [2701, 0, 0, 0]))
   \<and> schedule_last_tfound
        (process_schedule protocol_sample 2700 0 (schedule_example [2701, 0, 0, 0])) = 2701
   \<and> 2701 \<le> schedule_tlow 2712 0 (evaluations protocol_sample [2706]
        (process_schedule protocol_sample 2700 0 (schedule_example [2701, 0, 0, 0])))
   \<and> schedule_tfound 2712 0 (evaluations protocol_sample [2706]
        (process_schedule protocol_sample 2700 0 (schedule_example [2701, 0, 0, 0]))) \<noteq> 2701"
proof -
  let ?s = "schedule_example [2701, 0, 0, 0]"
  let ?s1 = "process_schedule protocol_sample 2700 0 ?s"
  have a: "time_has_been_set ?s" "schedule_tfound 2700 0 ?s = 2701" "(2701 :: uint16) \<noteq> 0"
    by (simp_all add: schedule_example_fields schedule_example_tfound)
  have l1: "schedule_last_tfound ?s1 = 2701" "time_has_been_set ?s1"
    "schedule ?s1 = [2701, 0, 0, 0]"
    by (simp_all add: process_schedule_last process_schedule_keeps a schedule_example_fields)
  have r: "schedule_last_reset 2706 0 ?s1 = 2701"
    by (simp only: schedule_last_reset_def l1) simp
  have f: "schedule_tfound 2706 0 ?s1 = 0"
    by (simp only: schedule_tfound_def schedule_tlow_def schedule_thigh_def r l1 Let_def) simp
  have l2: "schedule_last_tfound (process_schedule protocol_sample 2706 0 ?s1) = 2701"
    by (subst process_schedule_last) (simp only: l1 f r, simp)
  have w: "no_wrap protocol_sample ([2706] @ [2712]) ?s1"
    by (simp only: append.simps no_wrap.simps l1 l2) simp
  from not_refired_while_remembered[OF a w] a w show ?thesis
    by simp
qed


subsection \<open>The catch-up after a TIME message\<close>

lemma minute_plus_five: "(v::uint16) \<le> 65530 \<Longrightarrow> v \<le> v div 6 * 6 + 5"
proof -
  assume a: "v \<le> 65530"
  then have b: "unat v \<le> 65530" by (simp add: word_le_nat_alt)
  have d: "unat (v div 6) = unat v div 6" by (simp add: unat_div)
  have m: "unat (v div 6 * 6) = unat v div 6 * 6"
    using b by (simp add: unat_word_ariths d)
  have p: "unat (v div 6 * 6 + 5) = unat v div 6 * 6 + 5"
    using b by (simp add: unat_word_ariths(1) m)
  show ?thesis
    unfolding word_le_nat_alt p by arith
qed

lemma forced_window:
  assumes "t \<noteq> 0"
  shows "schedule_last_reset v t s = 0"
    and "schedule_tlow v t s = (if 30 \<le> t then t - 30 else 0)"
  using assms by (simp_all add: schedule_last_reset_def schedule_tlow_def)

lemma forced_window_contains:
  assumes "t < e" and "e \<le> v" and "v \<le> 65530"
  shows "in_window (if 30 \<le> t then t - 30 else 0) (schedule_thigh v) e"
proof -
  have "(if 30 \<le> t then t - 30 else 0) \<le> t"
    by (simp add: word_sub_le)
  then have "(if 30 \<le> t then t - 30 else 0) < e"
    using assms(1) by (rule le_less_trans)
  moreover from assms(2) minute_plus_five[OF assms(3)] have "e \<le> schedule_thigh v"
    unfolding schedule_thigh_def by (rule order_trans)
  ultimately show ?thesis by (simp add: in_window_def)
qed

text \<open>
  Claim C3, as amended.  An accepted TIME message with a time newer than the node's sets
  the clock to the new time, marks the time as set and then evaluates the schedule with
  the old time as forced low bound.  When the old time is not zero, the evaluation
  remembers the last entry of the table (up to its first zero entry, in table order) in
  the window from five minutes before the old time to the new minute plus 5, and
  triggers the action of that entry when there is one; and, for a new time up to 65530,
  there is one whenever that part of the table holds an entry above the old time and
  not above the new one.
\<close>

theorem newer_time_message_catches_up:
  assumes "busctl_accepted K msg s"
    and "msg ! 5 AND NOT (P_BUSCTL_RESPMASK K) = P_BUSCTL_TIME K"
    and "time_msg_time msg > current_time s"
  shows "process_ebus_busctl K msg s =
           process_schedule K (time_msg_time msg) (current_time s)
             (set_current_fulltime (time_msg_time msg) (time_msg_deci msg) s)
       \<and> current_time (process_ebus_busctl K msg s) = time_msg_time msg
       \<and> time_has_been_set (process_ebus_busctl K msg s)
       \<and> (current_time s \<noteq> 0 \<longrightarrow>
            schedule_last_tfound (process_ebus_busctl K msg s) =
              last_in_window (if 30 \<le> current_time s then current_time s - 30 else 0)
                (schedule_thigh (time_msg_time msg)) (schedule s)
          \<and> (last_in_window (if 30 \<le> current_time s then current_time s - 30 else 0)
                (schedule_thigh (time_msg_time msg)) (schedule s) \<noteq> 0 \<longrightarrow>
              process_ebus_busctl K msg s =
                schedule_fire K
                  (last_in_window (if 30 \<le> current_time s then current_time s - 30 else 0)
                     (schedule_thigh (time_msg_time msg)) (schedule s))
                  ((set_current_fulltime (time_msg_time msg) (time_msg_deci msg) s)
                     \<lparr>schedule_last_tfound :=
                        last_in_window
                          (if 30 \<le> current_time s then current_time s - 30 else 0)
                          (schedule_thigh (time_msg_time msg)) (schedule s)\<rparr>))
          \<and> (time_msg_time msg \<le> 65530 \<longrightarrow>
               (\<forall>e\<in>set (takeWhile (\<lambda>t. t \<noteq> 0) (schedule s)).
                   current_time s < e \<and> e \<le> time_msg_time msg \<longrightarrow>
                   last_in_window (if 30 \<le> current_time s then current_time s - 30 else 0)
                     (schedule_thigh (time_msg_time msg)) (schedule s) \<noteq> 0)))"
proof -
  let ?v = "time_msg_time msg" and ?t = "current_time s"
  let ?s1 = "set_current_fulltime (time_msg_time msg) (time_msg_deci msg) s"
  let ?w = "last_in_window (if 30 \<le> ?t then ?t - 30 else 0) (schedule_thigh ?v) (schedule s)"
  have e: "process_ebus_busctl K msg s = process_schedule K ?v ?t ?s1"
    using assms(3) by (simp add: process_ebus_busctl_time[OF assms(1,2)])
  have s1: "time_has_been_set ?s1" "schedule ?s1 = schedule s" "current_time ?s1 = ?v"
    by (simp_all add: set_current_fulltime_def)
  have c: "current_time (process_ebus_busctl K msg s) = ?v"
    "time_has_been_set (process_ebus_busctl K msg s)"
    unfolding e by (simp_all add: process_schedule_keeps s1)
  have f: "schedule_tfound ?v ?t ?s1 = ?w" if "?t \<noteq> 0"
    by (simp add: schedule_tfound_last forced_window(2)[OF that] s1)
  have l: "schedule_last_tfound (process_ebus_busctl K msg s) = ?w" if "?t \<noteq> 0"
    unfolding e using f[OF that] forced_window(1)[OF that, of ?v ?s1]
    by (simp add: process_schedule_last s1)
  have g: "process_ebus_busctl K msg s = schedule_fire K ?w (?s1\<lparr>schedule_last_tfound := ?w\<rparr>)"
    if "?t \<noteq> 0" "?w \<noteq> 0"
    unfolding e using f[OF that(1)] that(2)
    by (simp add: process_schedule_alt s1)
  have h: "?w \<noteq> 0"
    if "?v \<le> 65530" "x \<in> set (takeWhile (\<lambda>t. t \<noteq> 0) (schedule s))" "?t < x" "x \<le> ?v" for x
    using that(2) by (rule last_in_window_nonzero) (rule forced_window_contains[OF that(3,4,1)])
  from e c l g h show ?thesis by blast
qed


lemma clock_example_fields:
  "current_time (clock_example t tbl) = t" "schedule (clock_example t tbl) = tbl"
  "schedule_last_tfound (clock_example t tbl) = 0"
  "debug_flags (config (clock_example t tbl)) = 0"
  "busctl_accepted protocol_sample time_msg_example (clock_example t tbl)"
  "busctl_accepted protocol_sample (time_msg_example[8 := 0x92]) (clock_example t tbl)"
  "time_msg_example[8 := 0x92] ! 5 AND NOT (P_BUSCTL_RESPMASK protocol_sample)
     = P_BUSCTL_TIME protocol_sample"
  "time_msg_time (time_msg_example[8 := 0x92]) = 2706"
  by (simp_all add: clock_example_def node_reset_def busctl_accepted_def
      time_msg_example_def protocol_sample_def time_msg_time_def)

lemma catch_up_windows:
  "last_in_window (if 30 \<le> (2699::uint16) then 2699 - 30 else 0) (schedule_thigh 2700)
     [2701, 0, 0, 0] = 2701"
  "last_in_window (if 30 \<le> (2694::uint16) then 2694 - 30 else 0) (schedule_thigh 2706)
     [2701, 2675] = 2675"
  by (simp_all add: last_in_window_def in_window_def schedule_thigh_def)

theorem newer_time_message_catches_up_witness:
  "busctl_accepted protocol_sample time_msg_example (clock_example 2699 [2701, 0, 0, 0])
   \<and> time_msg_example ! 5 AND NOT (P_BUSCTL_RESPMASK protocol_sample)
       = P_BUSCTL_TIME protocol_sample
   \<and> time_msg_time time_msg_example > current_time (clock_example 2699 [2701, 0, 0, 0])
   \<and> current_time (clock_example 2699 [2701, 0, 0, 0]) \<noteq> 0
   \<and> time_msg_time time_msg_example \<le> 65530
   \<and> 2701 \<in> set (takeWhile (\<lambda>t. t \<noteq> 0) (schedule (clock_example 2699 [2701, 0, 0, 0])))
   \<and> current_time (process_ebus_busctl protocol_sample time_msg_example
        (clock_example 2699 [2701, 0, 0, 0])) = 2700
   \<and> time_has_been_set (process_ebus_busctl protocol_sample time_msg_example
        (clock_example 2699 [2701, 0, 0, 0]))
   \<and> schedule_last_tfound (process_ebus_busctl protocol_sample time_msg_example
        (clock_example 2699 [2701, 0, 0, 0])) = 2701
   \<and> motor_state (process_ebus_busctl protocol_sample time_msg_example
        (clock_example 2699 [2701, 0, 0, 0])) = motor_state_pre_up"
proof -
  let ?s = "clock_example 2699 [2701, 0, 0, 0]"
  have n: "time_msg_time time_msg_example > current_time ?s" "current_time ?s \<noteq> 0"
    "time_msg_time time_msg_example \<le> 65530"
    "2701 \<in> set (takeWhile (\<lambda>t. t \<noteq> 0) (schedule ?s))"
    by (simp_all add: clock_example_fields time_msg_example_values)
  note th = newer_time_message_catches_up[OF clock_example_fields(5)
      time_msg_example_values(4) n(1)]
  have w: "last_in_window (if 30 \<le> current_time ?s then current_time ?s - 30 else 0)
            (schedule_thigh (time_msg_time time_msg_example)) (schedule ?s) = 2701"
    by (simp only: clock_example_fields time_msg_example_values catch_up_windows)
  note th' = th[unfolded w]
  from th' n(2) have l: "schedule_last_tfound (process_ebus_busctl protocol_sample
        time_msg_example ?s) = 2701"
    by blast
  have nz: "(2701 :: uint16) \<noteq> 0" by simp
  from th' n(2) nz have "process_ebus_busctl protocol_sample time_msg_example ?s =
      schedule_fire protocol_sample 2701
        ((set_current_fulltime (time_msg_time time_msg_example)
            (time_msg_deci time_msg_example) ?s)\<lparr>schedule_last_tfound := 2701\<rparr>)"
    by blast
  then have m: "motor_state (process_ebus_busctl protocol_sample time_msg_example ?s)
      = motor_state_pre_up"
    by (simp add: schedule_fire_def)
  from th have c: "current_time (process_ebus_busctl protocol_sample time_msg_example ?s)
        = time_msg_time time_msg_example"
      "time_has_been_set (process_ebus_busctl protocol_sample time_msg_example ?s)"
    by blast+
  from n l m c clock_example_fields(5)[of 2699 "[2701, 0, 0, 0]"] time_msg_example_values(4)
  show ?thesis
    by (simp add: time_msg_example_values(1))
qed

text \<open>
  The reading of claim C3 fails: at 07:29:00 with the table of a pull-up at 07:30
  followed by a pull-down at 07:25, a TIME message carrying 07:31:00 makes the node pull
  down, the entry remembered being the one of 07:25; the entry of 07:30, which lies
  between the old and the new time, does not fire.  And a node at time 0 with a pull-up
  at 07:00 that receives 07:30:05 only sets its clock.
\<close>

theorem newer_time_message_counterexample:
  "busctl_accepted protocol_sample (time_msg_example[8 := 0x92])
     (clock_example 2694 [2701, 2675])
   \<and> time_msg_example[8 := 0x92] ! 5 AND NOT (P_BUSCTL_RESPMASK protocol_sample)
       = P_BUSCTL_TIME protocol_sample
   \<and> current_time (clock_example 2694 [2701, 2675]) = 2694
   \<and> time_msg_time (time_msg_example[8 := 0x92]) = 2706
   \<and> 2701 \<in> set (schedule (clock_example 2694 [2701, 2675]))
   \<and> (2694 :: uint16) < 2701 \<and> (2701 :: uint16) \<le> 2706
   \<and> schedule_last_tfound (process_ebus_busctl protocol_sample (time_msg_example[8 := 0x92])
        (clock_example 2694 [2701, 2675])) = 2675
   \<and> motor_state (process_ebus_busctl protocol_sample (time_msg_example[8 := 0x92])
        (clock_example 2694 [2701, 2675])) = motor_state_pre_down
   \<and> busctl_accepted protocol_sample time_msg_example (clock_example 0 [2521])
   \<and> current_time (clock_example 0 [2521]) = 0
   \<and> time_msg_time time_msg_example = 2700
   \<and> 2521 \<in> set (schedule (clock_example 0 [2521]))
   \<and> (0 :: uint16) < 2521 \<and> (2521 :: uint16) \<le> 2700
   \<and> process_ebus_busctl protocol_sample time_msg_example (clock_example 0 [2521])
       = set_current_fulltime 2700 50 (clock_example 0 [2521])
   \<and> motor_state (process_ebus_busctl protocol_sample time_msg_example
        (clock_example 0 [2521])) = motor_state_off"
proof -
  let ?m = "time_msg_example[8 := 0x92]" and ?s = "clock_example 2694 [2701, 2675]"
  let ?z = "clock_example 0 [2521]"
  let ?s1 = "set_current_fulltime 2706 (time_msg_deci ?m) ?s"
  let ?z1 = "set_current_fulltime 2700 50 ?z"
  have s1: "time_has_been_set ?s1" "schedule ?s1 = [2701, 2675]"
    "schedule_last_tfound ?s1 = 0" "motor_state ?s1 = motor_state_off"
    by (simp_all add: set_current_fulltime_def clock_example_def node_reset_def)
  have fw: "schedule_tlow 2706 2694 ?s1 = (if 30 \<le> (2694::uint16) then 2694 - 30 else 0)"
    by (rule forced_window(2)) simp
  have f: "schedule_tfound 2706 2694 ?s1 = 2675"
    by (simp only: schedule_tfound_last fw s1 catch_up_windows(2))
  have a: "process_ebus_busctl protocol_sample ?m ?s = process_schedule protocol_sample 2706 2694 ?s1"
    by (simp add: process_ebus_busctl_time[OF clock_example_fields(6,7)] clock_example_fields)
  have b: "schedule_last_tfound (process_ebus_busctl protocol_sample ?m ?s) = 2675"
    unfolding a by (subst process_schedule_last) (simp only: s1 f, simp)
  have c: "motor_state (process_ebus_busctl protocol_sample ?m ?s) = motor_state_pre_down"
    unfolding a by (subst process_schedule_alt) (simp only: s1 f, simp add: schedule_fire_def)
  have z1: "time_has_been_set ?z1" "schedule ?z1 = [2521]" "schedule_last_tfound ?z1 = 0"
    "motor_state ?z1 = motor_state_off"
    by (simp_all add: set_current_fulltime_def clock_example_def node_reset_def)
  have g: "schedule_tfound 2700 0 ?z1 = 0"
    by (simp only: schedule_tfound_def schedule_tlow_def schedule_thigh_def
        schedule_last_reset_def z1 Let_def) simp
  have r: "schedule_last_reset 2700 0 ?z1 = 0"
    by (simp only: schedule_last_reset_def z1) simp
  have "process_schedule protocol_sample 2700 0 ?z1 = ?z1\<lparr>schedule_last_tfound := 0\<rparr>"
    by (subst process_schedule_alt) (simp only: z1 g r, simp)
  also have "\<dots> = ?z1"
    by (simp add: set_current_fulltime_def clock_example_def node_reset_def)
  finally have d: "process_ebus_busctl protocol_sample time_msg_example ?z = ?z1"
    by (simp add: process_ebus_busctl_time[OF clock_example_fields(5)
          time_msg_example_values(4)] clock_example_fields time_msg_example_values)
  show ?thesis
    unfolding d b c
    by (simp add: clock_example_fields time_msg_example_values z1)
qed


subsection \<open>A second evaluation in the minute of the entry\<close>

text \<open>
  Claim C4.  The test \<^verbatim>\<open>schedule_last_tfound > time\<close> is meant for the weekly wrap, but an
  entry carries its action in the ten-second digit and is greater than the time of an
  evaluation earlier in its own minute.  The node stands at 07:29:50 (2699) with the entry
  2701 (07:30, pull up) and receives the TIME message for 07:30:05 (2700): the forced
  evaluation picks 2701, remembers it and starts the pull-up sequence, which two steps of
  the state machine bring to \<open>motor_state_up\<close>.  The evaluation of the main loop at 2700, without
  forced low bound and in the same week, drops the remembered entry, picks 2701 again and
  triggers the action again: the state machine is back at \<open>motor_state_pre_up\<close>.
\<close>

theorem refired_in_same_minute:
  "current_time (process_ebus_busctl protocol_sample time_msg_example
      (clock_example 2699 [2701, 0, 0, 0])) = 2700
   \<and> schedule_last_tfound (process_ebus_busctl protocol_sample time_msg_example
      (clock_example 2699 [2701, 0, 0, 0])) = 2701
   \<and> motor_state (snd (motor_action (snd (motor_action
        (process_ebus_busctl protocol_sample time_msg_example
          (clock_example 2699 [2701, 0, 0, 0])))))) = motor_state_up
   \<and> schedule_tfound 2700 0 (snd (motor_action (snd (motor_action
        (process_ebus_busctl protocol_sample time_msg_example
          (clock_example 2699 [2701, 0, 0, 0])))))) = 2701
   \<and> motor_state (process_schedule protocol_sample 2700 0 (snd (motor_action (snd (motor_action
        (process_ebus_busctl protocol_sample time_msg_example
          (clock_example 2699 [2701, 0, 0, 0]))))))) = motor_state_pre_up"
proof -
  let ?s1 = "process_ebus_busctl protocol_sample time_msg_example
      (clock_example 2699 [2701, 0, 0, 0])"
  let ?s2 = "snd (motor_action (snd (motor_action ?s1)))"
  have a: "process_ebus_busctl protocol_sample time_msg_example
      (clock_example 2699 [2701, 0, 0, 0]) =
      process_schedule protocol_sample 2700 2699
        (set_current_fulltime 2700 50 (clock_example 2699 [2701, 0, 0, 0]))"
    by (simp add: process_ebus_busctl_time[OF clock_example_fields(5)
          time_msg_example_values(4)] clock_example_fields time_msg_example_values)
  let ?s0 = "set_current_fulltime 2700 50 (clock_example 2699 [2701, 0, 0, 0])"
  have s0: "time_has_been_set ?s0" "schedule ?s0 = [2701, 0, 0, 0]"
    "schedule_last_tfound ?s0 = 0" "current_time ?s0 = 2700"
    "debug_flags (config ?s0) = 0"
    by (simp_all add: set_current_fulltime_def clock_example_def node_reset_def)
  have fw: "schedule_tlow 2700 2699 ?s0 = (if 30 \<le> (2699::uint16) then 2699 - 30 else 0)"
    by (rule forced_window(2)) simp
  have f: "schedule_tfound 2700 2699 ?s0 = 2701"
    by (simp only: schedule_tfound_last fw s0 catch_up_windows(1))
  have s1: "?s1 = trigger_action action_up (?s0\<lparr>schedule_last_tfound := 2701\<rparr>)"
    unfolding a by (subst process_schedule_alt)
      (simp only: s0 f, simp add: schedule_fire_def send_dbgmsg_def s0)
  have m1: "motor_state ?s1 = motor_state_pre_up" "schedule_last_tfound ?s1 = 2701"
    "current_time ?s1 = 2700" "time_has_been_set ?s1" "schedule ?s1 = [2701, 0, 0, 0]"
    unfolding s1 by (simp_all add: s0)
  have s2: "?s2 = ?s1\<lparr>MOTOR_on := False, MOTOR_down := False, motor_state := motor_state_up\<rparr>"
    by (simp add: motor_action_one motor_step_def m1)
  have m2: "motor_state ?s2 = motor_state_up" "schedule_last_tfound ?s2 = 2701"
    "time_has_been_set ?s2" "schedule ?s2 = [2701, 0, 0, 0]"
    unfolding s2 by (simp_all add: m1)
  have r: "schedule_last_reset 2700 0 ?s2 = 0"
    by (simp only: schedule_last_reset_def m2) simp
  have g: "schedule_tfound 2700 0 ?s2 = 2701"
    by (simp only: schedule_tfound_def schedule_tlow_def schedule_thigh_def r m2 Let_def) simp
  have h: "motor_state (process_schedule protocol_sample 2700 0 ?s2) = motor_state_pre_up"
    by (subst process_schedule_alt) (simp only: m2 g, simp add: schedule_fire_def)
  from m1 m2 g h show ?thesis by simp
qed

end
